theory Spec2Isabelle
  imports Complex_Main "HOL-Library.Char_ord" "HOL-Library.List_Lexorder"
    "HOL-Library.Product_Lexorder"
begin

section \<open>Fertilizer price extraction: the functions of download_data.py\<close>

text \<open>
  The development follows \<^verbatim>\<open>clean_currency\<close>, \<^verbatim>\<open>create_entry\<close>,
  \<^verbatim>\<open>extract_date_from_filename\<close>, \<^verbatim>\<open>parse_pdf\<close> and
  \<^verbatim>\<open>process_fertilizer_data\<close>.

  Conventions of the model.
  \<^item> A \<open>string\<close> is a list of characters with the codes 0 to 255. The two whitespace
    characters above ASCII, U+0085 and U+00A0, are whitespace; the letters above ASCII have
    no case here, and there are no digits above ASCII.
  \<^item> A table cell is \<open>string option\<close>: the table extractor gives a text or \<^verbatim>\<open>None\<close>.
  \<^item> A Python float is a \<open>pyfloat\<close>: a finite value, one of the two infinities, or NaN.
    A finite value is kept as the exact decimal number that the literal denotes: a literal
    too small for a binary64 number is zero and one too large is an infinity, and in
    between the rounding of the literal to the nearest binary64 number is not part of the
    model.
  \<^item> A data frame is the list of its rows; the column types of the frame library are not
    part of the model.
\<close>

subsection \<open>Text primitives of Python\<close>

text \<open>The characters that \<^verbatim>\<open>str.strip()\<close> removes.\<close>

definition is_space :: "char \<Rightarrow> bool" where
  "is_space c = (c \<in> set [CHR 0x09, CHR 0x0A, CHR 0x0B, CHR 0x0C, CHR 0x0D,
                           CHR 0x1C, CHR 0x1D, CHR 0x1E, CHR 0x1F, CHR 0x20,
                           CHR 0x85, CHR 0xA0])"

definition strip :: "string \<Rightarrow> string" where
  "strip s = rev (dropWhile is_space (rev (dropWhile is_space s)))"

definition upper_char :: "char \<Rightarrow> char" where
  "upper_char c =
     (case map_of (zip ''abcdefghijklmnopqrstuvwxyz'' ''ABCDEFGHIJKLMNOPQRSTUVWXYZ'') c of
        Some u \<Rightarrow> u | None \<Rightarrow> c)"

definition lower_char :: "char \<Rightarrow> char" where
  "lower_char c =
     (case map_of (zip ''ABCDEFGHIJKLMNOPQRSTUVWXYZ'' ''abcdefghijklmnopqrstuvwxyz'') c of
        Some l \<Rightarrow> l | None \<Rightarrow> c)"

definition upper :: "string \<Rightarrow> string" where
  "upper s = map upper_char s"

definition lower :: "string \<Rightarrow> string" where
  "lower s = map lower_char s"

text \<open>\<^verbatim>\<open>s.startswith(p)\<close>\<close>

fun startswith :: "string \<Rightarrow> string \<Rightarrow> bool" where
  "startswith s [] = True"
| "startswith [] (p # ps) = False"
| "startswith (c # cs) (p # ps) = (c = p \<and> startswith cs ps)"

text \<open>\<^verbatim>\<open>p in s\<close> on two texts: \<open>p\<close> occurs in \<open>s\<close> as a contiguous piece.\<close>

fun py_in :: "string \<Rightarrow> string \<Rightarrow> bool" where
  "py_in p [] = (p = [])"
| "py_in p (c # cs) = (startswith (c # cs) p \<or> py_in p cs)"

text \<open>\<^verbatim>\<open>s.replace(a, b)\<close> for single characters, and \<^verbatim>\<open>s.replace(a, '')\<close>.\<close>

definition replace_char :: "char \<Rightarrow> char \<Rightarrow> string \<Rightarrow> string" where
  "replace_char a b s = map (\<lambda>c. if c = a then b else c) s"

definition remove_char :: "char \<Rightarrow> string \<Rightarrow> string" where
  "remove_char a s = filter (\<lambda>c. c \<noteq> a) s"

text \<open>\<^verbatim>\<open>s.split('\n')\<close>: at least one piece, also for the empty text.\<close>

fun split_nl :: "string \<Rightarrow> string list" where
  "split_nl [] = [[]]"
| "split_nl (c # cs) =
     (if c = CHR 0x0A then [] # split_nl cs
      else (case split_nl cs of l # ls \<Rightarrow> (c # l) # ls | [] \<Rightarrow> [[c]]))"

text \<open>\<^verbatim>\<open>sep.join(xs)\<close>\<close>

fun join :: "string \<Rightarrow> string list \<Rightarrow> string" where
  "join sep [] = []"
| "join sep [x] = x"
| "join sep (x # y # ys) = x @ sep @ join sep (y # ys)"

text \<open>\<^verbatim>\<open>str(cell)\<close>: the text itself, and the four letters \<^verbatim>\<open>None\<close> for a missing cell.\<close>

type_synonym cell = "string option"

definition py_str :: "cell \<Rightarrow> string" where
  "py_str v = (case v of None \<Rightarrow> ''None'' | Some s \<Rightarrow> s)"

subsection \<open>The built-in float() on a text\<close>

datatype pyfloat = Fin rat | PInf | NInf | NaN

text \<open>\<^verbatim>\<open>bool(x)\<close> of a float: everything but zero is true, NaN included.\<close>

fun truthy :: "pyfloat \<Rightarrow> bool" where
  "truthy (Fin q) = (q \<noteq> 0)"
| "truthy PInf = True"
| "truthy NInf = True"
| "truthy NaN = True"

definition is_digit :: "char \<Rightarrow> bool" where
  "is_digit c = (c \<in> set ''0123456789'')"

definition digit_val :: "char \<Rightarrow> nat" where
  "digit_val c =
     (case map_of (zip ''0123456789'' [0, 1, 2, 3, 4, 5, 6, 7, 8, 9]) c of
        Some d \<Rightarrow> d | None \<Rightarrow> 0)"

definition digits_val :: "string \<Rightarrow> nat" where
  "digits_val ds = foldl (\<lambda>a c. 10 * a + digit_val c) 0 ds"

text \<open>
  Underscores may stand between two digits only. The check runs over the whole text with
  the previous character at hand (\<open>None\<close> at the start), as the interpreter's loop does.
\<close>

fun underscores_ok :: "char option \<Rightarrow> string \<Rightarrow> bool" where
  "underscores_ok prev [] = (prev \<noteq> Some CHR ''_'')"
| "underscores_ok prev (c # cs) =
     (if c = CHR ''_''
      then (case prev of None \<Rightarrow> False | Some p \<Rightarrow> is_digit p) \<and> underscores_ok (Some c) cs
      else (prev = Some CHR ''_'' \<longrightarrow> is_digit c) \<and> underscores_ok (Some c) cs)"

text \<open>The whitespace that float() itself skips at the two ends.\<close>

definition c_isspace :: "char \<Rightarrow> bool" where
  "c_isspace c = (c \<in> set [CHR 0x09, CHR 0x0A, CHR 0x0B, CHR 0x0C, CHR 0x0D, CHR 0x20,
                             CHR 0x85, CHR 0xA0])"

definition c_strip :: "string \<Rightarrow> string" where
  "c_strip s = rev (dropWhile c_isspace (rev (dropWhile c_isspace s)))"

text \<open>An optional sign: whether it is a minus, and the rest.\<close>

fun parse_sign :: "string \<Rightarrow> bool \<times> string" where
  "parse_sign [] = (False, [])"
| "parse_sign (c # cs) =
     (if c = CHR ''-'' then (True, cs) else if c = CHR ''+'' then (False, cs)
      else (False, c # cs))"

text \<open>The value \<open>m * 10 ^ e\<close> for an integer exponent.\<close>

definition scale10 :: "nat \<Rightarrow> int \<Rightarrow> rat" where
  "scale10 m e = (if 0 \<le> e then of_nat m * 10 ^ nat e else of_nat m / 10 ^ nat (- e))"

text \<open>
  The exponent part: \<open>e\<close> or \<open>E\<close>, an optional sign, and at least one digit. Without a
  digit the exponent is not read at all and the text stays as it is.
\<close>

definition parse_exponent :: "string \<Rightarrow> int \<times> string" where
  "parse_exponent s =
     (case s of
        [] \<Rightarrow> (0, s)
      | c # cs \<Rightarrow>
          if c = CHR ''e'' \<or> c = CHR ''E''
          then (let (neg, r) = parse_sign cs;
                    ds = takeWhile is_digit r
                in if ds = [] then (0, s)
                   else ((if neg then - int (digits_val ds) else int (digits_val ds)),
                         dropWhile is_digit r))
          else (0, s))"

text \<open>
  The range of the binary64 numbers: a value of at most half the least positive number,
  \<open>2 ^ - 1075\<close>, is zero, and a value from \<open>2 ^ 1024 - 2 ^ 970\<close> on, half a step above the
  greatest number, is an infinity.
\<close>

definition to_double_range :: "rat \<Rightarrow> pyfloat" where
  "to_double_range v =
     (if \<bar>v\<bar> \<le> 1 / 2 ^ 1075 then Fin 0
      else if 2 ^ 1024 - 2 ^ 970 \<le> \<bar>v\<bar> then (if v < 0 then NInf else PInf)
      else Fin v)"

text \<open>
  A decimal number: sign, digits, an optional point with more digits, at least one digit
  in all, and an optional exponent. The result is the value and the unread rest.
\<close>

definition parse_decimal :: "string \<Rightarrow> (pyfloat \<times> string) option" where
  "parse_decimal s =
     (let (neg, r0) = parse_sign s;
          ip = takeWhile is_digit r0;
          r1 = dropWhile is_digit r0;
          (fp, r2) = (case r1 of
                        c # cs \<Rightarrow> if c = CHR ''.''
                                  then (takeWhile is_digit cs, dropWhile is_digit cs)
                                  else ([], r1)
                      | [] \<Rightarrow> ([], r1))
      in if ip = [] \<and> fp = [] then None
         else (let (e, r3) = parse_exponent r2;
                   v = scale10 (digits_val (ip @ fp)) (e - int (length fp))
               in Some (to_double_range (if neg then - v else v), r3)))"

text \<open>\<open>inf\<close>, \<open>infinity\<close> and \<open>nan\<close>, in any case, after an optional sign.\<close>

definition parse_inf_or_nan :: "string \<Rightarrow> (pyfloat \<times> string) option" where
  "parse_inf_or_nan s =
     (let (neg, r) = parse_sign s
      in if startswith (lower r) ''inf''
         then (let r' = drop 3 r;
                   r'' = (if startswith (lower r') ''inity'' then drop 5 r' else r')
               in Some (if neg then NInf else PInf, r''))
         else if startswith (lower r) ''nan'' then Some (NaN, drop 3 r)
         else None)"

definition strtod :: "string \<Rightarrow> (pyfloat \<times> string) option" where
  "strtod s = (case parse_decimal s of Some r \<Rightarrow> Some r | None \<Rightarrow> parse_inf_or_nan s)"

text \<open>
  \<^verbatim>\<open>float(s)\<close>. \<open>None\<close> stands for the \<^verbatim>\<open>ValueError\<close> that float() raises on a text
  it cannot read; float() raises nothing else on a text.
\<close>

definition py_float :: "string \<Rightarrow> pyfloat option" where
  "py_float s =
     (if \<not> underscores_ok None s then None
      else (let t = c_strip (remove_char CHR ''_'' s)
            in if t = [] then None
               else (case strtod t of
                       None \<Rightarrow> None
                     | Some (x, rest) \<Rightarrow> if rest = [] then Some x else None)))"

subsection \<open>clean_currency\<close>

text \<open>
  \<^verbatim>\<open>not value\<close> holds for \<^verbatim>\<open>None\<close> and for the empty text; \<^verbatim>\<open>pd.isna\<close> of a text is
  false. The \<^verbatim>\<open>ValueError\<close> of float() is caught and gives \<^verbatim>\<open>None\<close>.
\<close>

definition clean_currency :: "cell \<Rightarrow> pyfloat option" where
  "clean_currency v =
     (case v of
        None \<Rightarrow> None
      | Some s \<Rightarrow>
          if s = [] \<or> strip s = [] then None
          else (let cleaned = strip (remove_char CHR '' '' (remove_char CHR '','' s))
                in case py_float cleaned of None \<Rightarrow> None | Some x \<Rightarrow> Some x))"

text \<open>The text that line 109 hands to float(): the variable \<^verbatim>\<open>cleaned\<close>.\<close>

definition cleaned :: "string \<Rightarrow> string" where
  "cleaned s = strip (remove_char CHR '' '' (remove_char CHR '','' s))"

text \<open>
  The normalizer as the specification words it: commas and all whitespace are removed,
  and the rest is read as a number.
\<close>

definition spec_clean_currency :: "cell \<Rightarrow> pyfloat option" where
  "spec_clean_currency v =
     (case v of
        None \<Rightarrow> None
      | Some s \<Rightarrow> py_float (filter (\<lambda>c. c \<noteq> CHR '','' \<and> \<not> is_space c) s))"

subsection \<open>Timestamps and create_entry\<close>

text \<open>A \<^verbatim>\<open>pd.Timestamp\<close> at day precision; \<^verbatim>\<open>pd.NaT\<close> is \<open>None\<close> of \<open>timestamp option\<close>.\<close>

record timestamp =
  ts_year :: int
  ts_month :: nat
  ts_day :: nat

definition month_names :: "string list" where
  "month_names = [''January'', ''February'', ''March'', ''April'', ''May'', ''June'', ''July'',
     ''August'', ''September'', ''October'', ''November'', ''December'']"

text \<open>\<^verbatim>\<open>date.month_name()\<close>\<close>

definition month_name :: "timestamp \<Rightarrow> string" where
  "month_name d = month_names ! (ts_month d - 1)"

text \<open>One row of a data frame of extracted records; a cell of a frame may be missing.\<close>

record entry =
  Date :: "timestamp option"
  Month :: "string option"
  Year :: "int option"
  Region :: "string option"
  Province :: "string option"
  Urea_Prilled :: "pyfloat option"
  Urea_Granular :: "pyfloat option"
  Ammosul :: "pyfloat option"
  Complete :: "pyfloat option"
  Ammophos :: "pyfloat option"
  MOP :: "pyfloat option"
  DAP :: "pyfloat option"
  Source_File :: string

definition create_entry ::
  "timestamp option \<Rightarrow> string \<Rightarrow> string \<Rightarrow> pyfloat option list \<Rightarrow> string \<Rightarrow> entry" where
  "create_entry date region province prices filename =
     (let ps = take 7 (prices @ replicate 7 None)
      in \<lparr> Date = date,
           Month = (case date of None \<Rightarrow> None | Some d \<Rightarrow> Some (month_name d)),
           Year = (case date of None \<Rightarrow> None | Some d \<Rightarrow> Some (ts_year d)),
           Region = Some region, Province = Some province,
           Urea_Prilled = ps ! 0, Urea_Granular = ps ! 1, Ammosul = ps ! 2,
           Complete = ps ! 3, Ammophos = ps ! 4, MOP = ps ! 5, DAP = ps ! 6,
           Source_File = filename \<rparr>)"

text \<open>The seven price fields of a record, in the order of the products.\<close>

definition price_fields :: "entry \<Rightarrow> pyfloat option list" where
  "price_fields e =
     [Urea_Prilled e, Urea_Granular e, Ammosul e, Complete e, Ammophos e, MOP e, DAP e]"

subsection \<open>extract_date_from_filename\<close>

text \<open>\<^verbatim>\<open>re.search(r'(20\d{2})', s)\<close>: the leftmost place where the pattern fits.\<close>

definition year_at :: "string \<Rightarrow> bool" where
  "year_at s =
     (case s of
        a # b # c # d # _ \<Rightarrow> a = CHR ''2'' \<and> b = CHR ''0'' \<and> is_digit c \<and> is_digit d
      | _ \<Rightarrow> False)"

fun search_year :: "string \<Rightarrow> string option" where
  "search_year [] = None"
| "search_year (c # cs) = (if year_at (c # cs) then Some (take 4 (c # cs)) else search_year cs)"

definition months :: "string list" where
  "months = [''january'', ''february'', ''march'', ''april'', ''may'', ''june'', ''july'',
     ''august'', ''september'', ''october'', ''november'', ''december'', ''jan'', ''feb'',
     ''mar'', ''apr'', ''may'', ''jun'', ''jul'', ''aug'', ''sep'', ''sept'', ''oct'', ''nov'',
     ''dec'']"

text \<open>
  \<^verbatim>\<open>months.sort(key=len, reverse=True)\<close>: a stable sort, the longer tokens first, tokens
  of one length in the order they had.
\<close>

definition months_sorted :: "string list" where
  "months_sorted = sort_key (\<lambda>m. - int (length m)) months"

text \<open>
  \<^verbatim>\<open>re.search('(a|b|...)', s)\<close>: at the leftmost place where some alternative fits, the
  first alternative of the pattern that fits there.
\<close>

definition match_alt :: "string list \<Rightarrow> string \<Rightarrow> string option" where
  "match_alt alts s = find (\<lambda>a. startswith s a) alts"

fun search_alt :: "string list \<Rightarrow> string \<Rightarrow> string option" where
  "search_alt alts [] = match_alt alts []"
| "search_alt alts (c # cs) =
     (case match_alt alts (c # cs) of Some m \<Rightarrow> Some m | None \<Rightarrow> search_alt alts cs)"

text \<open>The month that a month token names, for the date parser.\<close>

definition month_number :: "string \<Rightarrow> nat option" where
  "month_number m =
     map_of [(''january'', 1), (''february'', 2), (''march'', 3), (''april'', 4), (''may'', 5),
       (''june'', 6), (''july'', 7), (''august'', 8), (''september'', 9), (''october'', 10),
       (''november'', 11), (''december'', 12), (''jan'', 1), (''feb'', 2), (''mar'', 3),
       (''apr'', 4), (''jun'', 6), (''jul'', 7), (''aug'', 8), (''sep'', 9), (''oct'', 10),
       (''nov'', 11), (''dec'', 12)] m"

text \<open>
  \<^verbatim>\<open>pd.to_datetime(f"{month_str} 1 {year}")\<close>, and \<^verbatim>\<open>pd.to_datetime\<close> of a month name,
  \<^verbatim>\<open>' 1, '\<close> and a year: the first day of that month, for a month token or name in any
  case and a year in digits. \<open>None\<close> stands for the exception of the date parser.
\<close>

definition to_datetime :: "string \<Rightarrow> int \<Rightarrow> timestamp option" where
  "to_datetime month_str y =
     (case month_number (lower month_str) of
        None \<Rightarrow> None
      | Some m \<Rightarrow> Some \<lparr> ts_year = y, ts_month = m, ts_day = 1 \<rparr>)"

text \<open>
  The lower-case file name with \<open>_\<close> and \<open>.\<close> replaced by \<open>-\<close>, and the function itself; its
  result is \<open>None\<close> for \<^verbatim>\<open>pd.NaT\<close>.
\<close>

definition filename_lower :: "string \<Rightarrow> string" where
  "filename_lower filename =
     replace_char CHR ''.'' CHR ''-'' (replace_char CHR ''_'' CHR ''-'' (lower filename))"

definition extract_date_from_filename :: "string \<Rightarrow> timestamp option" where
  "extract_date_from_filename filename =
     (let year = search_year (filename_lower filename);
          month_str = search_alt months_sorted (filename_lower filename)
      in case (month_str, year) of
           (Some m, Some y) \<Rightarrow>
             if m \<noteq> [] \<and> y \<noteq> []
             then (let m' = (if m = ''sept'' then ''sep'' else m)
                   in case to_datetime m' (int (digits_val y)) of
                        Some d \<Rightarrow> Some d
                      | None \<Rightarrow> None)
             else None
         | _ \<Rightarrow> None)"

subsection \<open>parse_pdf\<close>

text \<open>
  What the table extractor gives for a document: pages, each a list of tables, each a
  list of rows, each a list of cells.
\<close>

type_synonym row = "cell list"
type_synonym table = "row list"
type_synonym page = "table list"

text \<open>\<^verbatim>\<open>[clean_currency(c) for c in row[1:8]]\<close>\<close>

definition prices_of :: "row \<Rightarrow> pyfloat option list" where
  "prices_of row = map clean_currency (take 7 (drop 1 row))"

text \<open>\<^verbatim>\<open>any(prices)\<close>: some element is true; \<^verbatim>\<open>None\<close> and zero are false.\<close>

definition py_any :: "pyfloat option list \<Rightarrow> bool" where
  "py_any ps = list_ex (\<lambda>p. case p of None \<Rightarrow> False | Some x \<Rightarrow> truthy x) ps"

text \<open>
  The body of the loop over the rows. The state is \<^verbatim>\<open>current_region\<close> and \<^verbatim>\<open>data\<close>;
  every \<^verbatim>\<open>continue\<close> is a branch that returns the state.
\<close>

definition process_row ::
  "string \<Rightarrow> timestamp \<Rightarrow> string \<times> entry list \<Rightarrow> row \<Rightarrow> string \<times> entry list" where
  "process_row filename file_date st row =
     (let (current_region, data) = st
      in case row of
           [] \<Rightarrow> st
         | c0 # _ \<Rightarrow>
             if strip (py_str c0) = [] then st
             else
               (let raw_col = strip (py_str c0);
                    first_col = upper raw_col
                in if py_in ''REGION'' first_col \<and> py_in ''PROVINCE'' first_col then st
                   else if py_in ''FERTILIZER'' first_col \<or> py_in ''UREA'' first_col then st
                   else if startswith first_col ''46-0-0'' \<or> first_col = ''PRICE'' then st
                   else if py_in ''REGION'' first_col
                            \<or> first_col \<in> set [''CAR'', ''CARAGA'', ''BARMM'']
                   then
                     (let lines = split_nl raw_col;
                          current_region = strip (hd lines)
                      in if length lines = 1
                         then (let prices = prices_of row
                               in if py_any prices
                                  then (current_region,
                                        data @ [create_entry (Some file_date) current_region
                                                  ''Regional Summary'' prices filename])
                                  else (current_region, data))
                         else (let province = strip (join '' '' (tl lines));
                                   prices = prices_of row
                               in if py_any prices
                                  then (current_region,
                                        data @ [create_entry (Some file_date) current_region
                                                  province prices filename])
                                  else (current_region, data)))
                   else if first_col = ''AVE'' \<or> first_col = ''AVERAGE PRICE''
                   then
                     (let prices = prices_of row
                      in if py_any prices
                         then (current_region,
                               data @ [create_entry (Some file_date) current_region
                                         ''Regional Average'' prices filename])
                         else st)
                   else
                     (let province = strip (replace_char (CHR 0x0A) CHR '' '' raw_col);
                          prices = prices_of row
                      in if py_any prices
                         then (current_region,
                               data @ [create_entry (Some file_date) current_region
                                         province prices filename])
                         else st)))"

text \<open>
  \<^verbatim>\<open>parse_pdf\<close>, on the name of the document and the pages the extractor gives. The
  three loops run inside one another over one state.
\<close>

definition parse_pdf :: "string \<Rightarrow> page list \<Rightarrow> entry list" where
  "parse_pdf filename pages =
     (case extract_date_from_filename filename of
        None \<Rightarrow> []
      | Some file_date \<Rightarrow>
          snd (foldl (\<lambda>st page.
                   foldl (\<lambda>st table. foldl (process_row filename file_date) st table) st page)
                 (''Unknown'', []) pages))"

subsection \<open>The branches of the row loop, by name\<close>

text \<open>
  The conditions of lines 154 to 162 and 176, for stating what the loop does with a row:
  the trimmed first cell and its upper-case form, the rows that a \<^verbatim>\<open>continue\<close> of lines
  154 to 160 skips, the rows that reach the region branch, and the rows that reach the
  average branch.
\<close>

definition raw_col :: "row \<Rightarrow> string" where
  "raw_col row = (case row of [] \<Rightarrow> [] | c0 # _ \<Rightarrow> strip (py_str c0))"

definition first_col :: "row \<Rightarrow> string" where
  "first_col row = upper (raw_col row)"

definition is_skipped :: "row \<Rightarrow> bool" where
  "is_skipped row =
     (raw_col row = []
      \<or> (py_in ''REGION'' (first_col row) \<and> py_in ''PROVINCE'' (first_col row))
      \<or> (py_in ''FERTILIZER'' (first_col row) \<or> py_in ''UREA'' (first_col row))
      \<or> (startswith (first_col row) ''46-0-0'' \<or> first_col row = ''PRICE''))"

definition is_region_marker :: "row \<Rightarrow> bool" where
  "is_region_marker row =
     (\<not> is_skipped row
      \<and> (py_in ''REGION'' (first_col row)
         \<or> first_col row \<in> set [''CAR'', ''CARAGA'', ''BARMM'']))"

definition is_average :: "row \<Rightarrow> bool" where
  "is_average row =
     (\<not> is_skipped row \<and> \<not> is_region_marker row
      \<and> (first_col row = ''AVE'' \<or> first_col row = ''AVERAGE PRICE''))"

text \<open>The region and the province label that the region branch takes from the first cell.\<close>

definition marker_region :: "row \<Rightarrow> string" where
  "marker_region row = strip (hd (split_nl (raw_col row)))"

definition marker_province :: "row \<Rightarrow> string" where
  "marker_province row =
     (if length (split_nl (raw_col row)) = 1 then ''Regional Summary''
      else strip (join '' '' (tl (split_nl (raw_col row)))))"

text \<open>
  The region and the province label as the specification words them: the first line of
  the cell, and the remaining lines joined with single spaces.
\<close>

definition spec_marker_region :: "row \<Rightarrow> string" where
  "spec_marker_region row = hd (split_nl (raw_col row))"

definition spec_marker_province :: "row \<Rightarrow> string" where
  "spec_marker_province row =
     (if length (split_nl (raw_col row)) = 1 then ''Regional Summary''
      else join '' '' (tl (split_nl (raw_col row))))"

subsection \<open>process_fertilizer_data: the cache of the documents\<close>

text \<open>
  A local document: its file name and what the table extractor gives for it, \<open>None\<close>
  when opening or reading the document raises.
\<close>

record pdf_file =
  pdf_name :: string
  pdf_pages :: "page list option"

text \<open>
  \<^verbatim>\<open>pdf_file.with_suffix('.csv')\<close> on the file name: the part from the last dot on is
  replaced when that dot is neither the first nor the last character, and the suffix is
  appended otherwise. An empty name raises (\<open>None\<close>).
\<close>

definition with_suffix_csv :: "string \<Rightarrow> string option" where
  "with_suffix_csv name =
     (if name = [] then None
      else (let tail = takeWhile (\<lambda>c. c \<noteq> CHR ''.'') (rev name);
                i = length name - length tail - 1
            in if length tail < length name \<and> 0 < i \<and> tail \<noteq> []
               then Some (take i name @ ''.csv'')
               else Some (name @ ''.csv'')))"

text \<open>
  A cache artifact is a file of rows, or a file that the table reader cannot read. The
  rows are kept as \<^verbatim>\<open>to_csv\<close> wrote them.
\<close>

datatype csv_file = Unreadable | Frame "entry list"

text \<open>The texts that \<^verbatim>\<open>pd.read_csv\<close> takes for a missing value by default.\<close>

definition na_values :: "string list" where
  "na_values = [[], ''#N/A'', ''#N/A N/A'', ''#NA'', ''-1.#IND'', ''-1.#QNAN'', ''-NaN'',
     ''-nan'', ''1.#IND'', ''1.#QNAN'', ''<NA>'', ''N/A'', ''NA'', ''NULL'', ''NaN'', ''None'',
     ''n/a'', ''nan'', ''null'']"

definition read_text :: "string option \<Rightarrow> string option" where
  "read_text t =
     (case t of None \<Rightarrow> None | Some x \<Rightarrow> if x \<in> set na_values then None else Some x)"

text \<open>
  \<^verbatim>\<open>pd.read_csv(csv_name)\<close> followed by \<^verbatim>\<open>pd.to_datetime\<close> on the dates: the rows as they
  were written, but for the text cells that read as missing. \<open>None\<close> stands for an
  exception of the reader.
\<close>

definition read_row :: "entry \<Rightarrow> entry" where
  "read_row e = e \<lparr> Month := read_text (Month e), Region := read_text (Region e),
                    Province := read_text (Province e) \<rparr>"

definition read_csv :: "csv_file \<Rightarrow> entry list option" where
  "read_csv f = (case f of Unreadable \<Rightarrow> None | Frame rows \<Rightarrow> Some (map read_row rows))"

text \<open>
  \<^verbatim>\<open>parse_pdf(pdf_file)\<close> as the aggregator calls it: \<open>None\<close> when the extractor raises.
\<close>

definition parse_pdf_file :: "pdf_file \<Rightarrow> entry list option" where
  "parse_pdf_file f =
     (case extract_date_from_filename (pdf_name f) of
        None \<Rightarrow> Some []
      | Some _ \<Rightarrow> (case pdf_pages f of
                     None \<Rightarrow> None
                   | Some pages \<Rightarrow> Some (parse_pdf (pdf_name f) pages)))"

text \<open>
  The body of the loop over the documents: the cache after it, and the frame that is
  appended to \<^verbatim>\<open>all_data\<close>, if any. An exception in the body is swallowed.
\<close>

definition process_one ::
  "(string \<rightharpoonup> csv_file) \<Rightarrow> pdf_file \<Rightarrow> (string \<rightharpoonup> csv_file) \<times> entry list option" where
  "process_one cache f =
     (case with_suffix_csv (pdf_name f) of
        None \<Rightarrow> (cache, None)
      | Some csv_name \<Rightarrow>
          (case cache csv_name of
             Some artifact \<Rightarrow>
               (case read_csv artifact of None \<Rightarrow> (cache, None) | Some df \<Rightarrow> (cache, Some df))
           | None \<Rightarrow>
               (case parse_pdf_file f of
                  None \<Rightarrow> (cache, None)
                | Some df \<Rightarrow>
                    if df \<noteq> [] then (cache(csv_name \<mapsto> Frame df), Some df)
                    else (cache, None))))"

fun process_files ::
  "(string \<rightharpoonup> csv_file) \<Rightarrow> pdf_file list \<Rightarrow> (string \<rightharpoonup> csv_file) \<times> entry list list" where
  "process_files cache [] = (cache, [])"
| "process_files cache (f # fs) =
     (let (cache', r) = process_one cache f;
          (cache'', rs) = process_files cache' fs
      in (cache'', (case r of None \<Rightarrow> rs | Some df \<Rightarrow> df # rs)))"

subsection \<open>process_fertilizer_data: filter and monthly aggregate\<close>

text \<open>
  \<^verbatim>\<open>Series.str.contains(pat, case=False, na=False)\<close> for a pattern of plain characters:
  a missing text gives false.
\<close>

definition str_contains_ci :: "string \<Rightarrow> string option \<Rightarrow> bool" where
  "str_contains_ci pat t =
     (case t of None \<Rightarrow> False | Some x \<Rightarrow> py_in (lower pat) (lower x))"

definition region_7 :: "entry list \<Rightarrow> entry list" where
  "region_7 full_df = filter (\<lambda>e. str_contains_ci ''REGION VII'' (Region e)) full_df"

text \<open>\<^verbatim>\<open>~df['Province'].isin(['Regional Summary', 'Regional Average'])\<close>\<close>

definition is_sentinel :: "entry \<Rightarrow> bool" where
  "is_sentinel e =
     (Province e = Some ''Regional Summary'' \<or> Province e = Some ''Regional Average'')"

text \<open>
  The key of a row for \<^verbatim>\<open>groupby(['Year', 'Month', 'Region', 'Province'])\<close>. A row with
  a missing key cell belongs to no group.
\<close>

type_synonym group_key = "int \<times> string \<times> string \<times> string"

definition key_of :: "entry \<Rightarrow> group_key option" where
  "key_of e =
     (case (Year e, Month e, Region e, Province e) of
        (Some y, Some m, Some r, Some p) \<Rightarrow> Some (y, m, r, p)
      | _ \<Rightarrow> None)"

text \<open>The groups, in the ascending order of their keys, each with its rows.\<close>

definition groupby :: "entry list \<Rightarrow> (group_key \<times> entry list) list" where
  "groupby df =
     map (\<lambda>k. (k, filter (\<lambda>e. key_of e = Some k) df))
       (sort (remdups (List.map_filter key_of df)))"

text \<open>Addition and division of floats, on the exact values.\<close>

fun pf_add :: "pyfloat \<Rightarrow> pyfloat \<Rightarrow> pyfloat" where
  "pf_add (Fin a) (Fin b) = Fin (a + b)"
| "pf_add NaN _ = NaN"
| "pf_add _ NaN = NaN"
| "pf_add PInf NInf = NaN"
| "pf_add NInf PInf = NaN"
| "pf_add PInf _ = PInf"
| "pf_add _ PInf = PInf"
| "pf_add NInf _ = NInf"
| "pf_add _ NInf = NInf"

fun pf_div :: "pyfloat \<Rightarrow> nat \<Rightarrow> pyfloat" where
  "pf_div (Fin a) n = Fin (a / of_nat n)"
| "pf_div x n = x"

text \<open>
  The \<^verbatim>\<open>'mean'\<close> of a column of a group: missing cells (and NaN) are skipped, and a
  column with no value has a missing mean.
\<close>

definition column_mean :: "pyfloat option list \<Rightarrow> pyfloat option" where
  "column_mean col =
     (let vs = filter (\<lambda>v. v \<noteq> NaN) (List.map_filter id col)
      in if vs = [] then None else Some (pf_div (foldl pf_add (Fin 0) vs) (length vs)))"

text \<open>One row of the monthly aggregate.\<close>

record monthly =
  m_Date :: timestamp
  m_Year :: int
  m_Month :: string
  m_Region :: string
  m_Province :: string
  m_Urea_Prilled :: "pyfloat option"
  m_Urea_Granular :: "pyfloat option"
  m_Ammosul :: "pyfloat option"
  m_Complete :: "pyfloat option"
  m_Ammophos :: "pyfloat option"
  m_MOP :: "pyfloat option"
  m_DAP :: "pyfloat option"

text \<open>
  The aggregate row of a group, with its date \<^verbatim>\<open>pd.to_datetime(Month + ' 1, ' + Year)\<close>;
  \<open>None\<close> when the date parser raises.
\<close>

definition aggregate_group :: "group_key \<times> entry list \<Rightarrow> monthly option" where
  "aggregate_group g =
     (case g of ((y, m, r, p), rows) \<Rightarrow>
        (case to_datetime m y of
           None \<Rightarrow> None
         | Some d \<Rightarrow>
             Some \<lparr> m_Date = d, m_Year = y, m_Month = m, m_Region = r, m_Province = p,
                    m_Urea_Prilled = column_mean (map Urea_Prilled rows),
                    m_Urea_Granular = column_mean (map Urea_Granular rows),
                    m_Ammosul = column_mean (map Ammosul rows),
                    m_Complete = column_mean (map Complete rows),
                    m_Ammophos = column_mean (map Ammophos rows),
                    m_MOP = column_mean (map MOP rows),
                    m_DAP = column_mean (map DAP rows) \<rparr>))"

text \<open>The order of the timestamps, and the key of \<^verbatim>\<open>sort_values(by=["Date", "Province"])\<close>.\<close>

definition ts_key :: "timestamp \<Rightarrow> int \<times> nat \<times> nat" where
  "ts_key d = (ts_year d, ts_month d, ts_day d)"

definition sort_key_monthly :: "monthly \<Rightarrow> (int \<times> nat \<times> nat) \<times> string" where
  "sort_key_monthly r = (ts_key (m_Date r), m_Province r)"

datatype py_error = ValueError

text \<open>
  Lines 236 to 244: the monthly aggregate of the rows of the region. The sort is stable.
\<close>

definition monthly_aggregate :: "entry list \<Rightarrow> py_error + monthly list" where
  "monthly_aggregate region_7_df =
     (let region_7_provinces = filter (\<lambda>e. \<not> is_sentinel e) region_7_df;
          rows = map aggregate_group (groupby region_7_provinces)
      in if list_ex (\<lambda>r. r = None) rows then Inl ValueError
         else Inr (sort_key sort_key_monthly (List.map_filter id rows)))"

subsection \<open>process_fertilizer_data\<close>

text \<open>
  The files the function reads and writes: the cache artifacts by name, and the
  aggregate output file (\<open>None\<close> when there is none).
\<close>

record files =
  cache :: "string \<rightharpoonup> csv_file"
  out_file :: "monthly list option"

datatype report = No_PDF_links_found | No_data_extracted | No_Region_VII_data | Saved

text \<open>
  \<open>links\<close> is what \<^verbatim>\<open>get_pdf_links\<close> returned, and \<open>download_file link\<close> the local document
  of a link, \<open>None\<close> when the download raises. The result is the files after the call, and
  the message the function printed or the exception it raised.
\<close>

definition process_fertilizer_data ::
  "string list \<Rightarrow> (string \<Rightarrow> pdf_file option) \<Rightarrow> files \<Rightarrow> files \<times> (py_error + report)" where
  "process_fertilizer_data links download_file fs =
     (if links = [] then (fs, Inr No_PDF_links_found)
      else
        (let pdf_files = List.map_filter download_file links;
             (cache', all_data) = process_files (cache fs) pdf_files;
             fs' = fs \<lparr> cache := cache' \<rparr>
         in if all_data = [] then (fs', Inr No_data_extracted)
            else
              (let full_df = concat all_data;
                   region_7_df = region_7 full_df
               in if region_7_df = [] then (fs', Inr No_Region_VII_data)
                  else (case monthly_aggregate region_7_df of
                          Inl e \<Rightarrow> (fs', Inl e)
                        | Inr monthly_df \<Rightarrow>
                            (fs' \<lparr> out_file := Some monthly_df \<rparr>, Inr Saved)))))"

section \<open>Properties\<close>

subsection \<open>The currency normalizer\<close>

lemmas text_eval =
  is_space_def strip_def upper_def upper_char_def lower_def lower_char_def
  replace_char_def remove_char_def py_str_def

lemmas float_eval =
  py_float_def c_strip_def c_isspace_def strtod_def parse_decimal_def parse_inf_or_nan_def
  parse_exponent_def scale10_def digits_val_def digit_val_def is_digit_def
  to_double_range_def

lemma strip_decomp:
  "\<exists>a b. s = a @ strip s @ b \<and> (\<forall>c\<in>set a. is_space c) \<and> (\<forall>c\<in>set b. is_space c)"
proof -
  let ?t = "dropWhile is_space s"
  have s: "s = takeWhile is_space s @ ?t" by simp
  have "rev (dropWhile is_space (rev ?t)) @ rev (takeWhile is_space (rev ?t))
      = rev (takeWhile is_space (rev ?t) @ dropWhile is_space (rev ?t))"
    by (simp only: rev_append)
  also have "\<dots> = ?t"
    by (simp only: takeWhile_dropWhile_id rev_rev_ident)
  finally have t: "?t = strip s @ rev (takeWhile is_space (rev ?t))"
    by (simp add: strip_def)
  have a: "\<forall>c\<in>set (takeWhile is_space s). is_space c"
    by (meson set_takeWhileD)
  have b: "\<forall>c\<in>set (rev (takeWhile is_space (rev ?t))). is_space c"
    using set_takeWhileD by fastforce
  from s t have "s = takeWhile is_space s @ strip s @ rev (takeWhile is_space (rev ?t))"
    by metis
  with a b show ?thesis by blast
qed

lemma dropWhile_all: "\<forall>c\<in>set w. P c \<Longrightarrow> dropWhile P (w @ x) = dropWhile P x"
  by (induction w) auto

lemma strip_sandwich:
  assumes "\<forall>c\<in>set w1. is_space c" "\<forall>c\<in>set w2. is_space c" "\<forall>c\<in>set x. \<not> is_space c"
  shows "strip (w1 @ x @ w2) = x"
proof -
  have 1: "dropWhile is_space (w1 @ x @ w2) = dropWhile is_space (x @ w2)"
    using assms(1) by (rule dropWhile_all)
  show ?thesis
  proof (cases x)
    case Nil
    then show ?thesis using assms(1,2) by (auto simp: strip_def dest!: set_dropWhileD)
  next
    case (Cons c cs)
    then have 2: "dropWhile is_space (x @ w2) = x @ w2" using assms(3) by simp
    have 3: "dropWhile is_space (rev w2 @ rev x) = dropWhile is_space (rev x)"
      using assms(2) by (intro dropWhile_all) simp
    have "x \<noteq> []" using Cons by simp
    then have "\<not> is_space (last x)" using assms(3) last_in_set by blast
    then have 4: "dropWhile is_space (rev x) = rev x"
      by (simp add: dropWhile_eq_self_iff hd_rev)
    show ?thesis by (simp add: strip_def 1 2 3 4)
  qed
qed

lemma strip_no_space_ends:
  "\<forall>c\<in>set (strip s). is_space c \<longrightarrow> c = CHR '' '' \<Longrightarrow>
   strip (filter (\<lambda>c. c \<noteq> CHR '','' \<and> c \<noteq> CHR '' '') s)
     = filter (\<lambda>c. c \<noteq> CHR '','' \<and> c \<noteq> CHR '' '') (strip s)"
proof -
  assume h: "\<forall>c\<in>set (strip s). is_space c \<longrightarrow> c = CHR '' ''"
  let ?f = "filter (\<lambda>c. c \<noteq> CHR '','' \<and> c \<noteq> CHR '' '')"
  obtain a b where d: "s = a @ strip s @ b" and a: "\<forall>c\<in>set a. is_space c"
    and b: "\<forall>c\<in>set b. is_space c"
    using strip_decomp by blast
  have "?f s = ?f a @ ?f (strip s) @ ?f b"
    by (subst d) simp
  moreover have "\<forall>c\<in>set (?f a). is_space c" using a by simp
  moreover have "\<forall>c\<in>set (?f b). is_space c" using b by simp
  moreover have "\<forall>c\<in>set (?f (strip s)). \<not> is_space c" using h by auto
  ultimately show ?thesis by (simp add: strip_sandwich)
qed

lemma spec_filter_strip:
  "\<forall>c\<in>set (strip s). is_space c \<longrightarrow> c = CHR '' '' \<Longrightarrow>
   filter (\<lambda>c. c \<noteq> CHR '','' \<and> \<not> is_space c) s
     = filter (\<lambda>c. c \<noteq> CHR '','' \<and> c \<noteq> CHR '' '') (strip s)"
proof -
  assume h: "\<forall>c\<in>set (strip s). is_space c \<longrightarrow> c = CHR '' ''"
  let ?g = "filter (\<lambda>c. c \<noteq> CHR '','' \<and> \<not> is_space c)"
  obtain a b where d: "s = a @ strip s @ b" and a: "\<forall>c\<in>set a. is_space c"
    and b: "\<forall>c\<in>set b. is_space c"
    using strip_decomp by blast
  have "?g s = ?g a @ ?g (strip s) @ ?g b"
    by (subst d) simp
  moreover have "?g a = []" using a by (auto simp: filter_empty_conv)
  moreover have "?g b = []" using b by (auto simp: filter_empty_conv)
  moreover have "?g (strip s) = filter (\<lambda>c. c \<noteq> CHR '','' \<and> c \<noteq> CHR '' '') (strip s)"
    using h by (intro filter_cong) (auto simp: is_space_def)
  ultimately show ?thesis by simp
qed

lemma py_float_Nil: "py_float [] = None"
  by (simp add: py_float_def c_strip_def remove_char_def)

lemma clean_currency_eq:
  "clean_currency (Some s) =
     (if strip s = [] then None
      else py_float (strip (filter (\<lambda>c. c \<noteq> CHR '','' \<and> c \<noteq> CHR '' '') s)))"
proof -
  have "strip [] = []" by (simp add: strip_def)
  moreover have "filter (\<lambda>c. c \<noteq> CHR '' '') (filter (\<lambda>c. c \<noteq> CHR '','') s)
      = filter (\<lambda>c. c \<noteq> CHR '','' \<and> c \<noteq> CHR '' '') s"
    by (simp add: conj_commute)
  ultimately show ?thesis
    by (auto simp: clean_currency_def remove_char_def split: option.splits)
qed

lemma clean_currency_agrees:
  assumes h: "\<forall>c\<in>set (strip s). is_space c \<longrightarrow> c = CHR '' ''"
  shows "clean_currency (Some s) = spec_clean_currency (Some s)"
proof (cases "strip s = []")
  case True
  then show ?thesis
    using spec_filter_strip[OF h]
    by (simp add: clean_currency_eq spec_clean_currency_def py_float_Nil)
next
  case False
  then show ?thesis
    using spec_filter_strip[OF h] strip_no_space_ends[OF h]
    by (simp add: clean_currency_eq spec_clean_currency_def)
qed


subsection \<open>What float() reads holds no whitespace\<close>

lemma is_digit_not_space: "is_digit c \<Longrightarrow> \<not> is_space c"
  by (auto simp: is_digit_def is_space_def)

lemma c_isspace_is_space: "c_isspace c \<Longrightarrow> is_space c"
  by (auto simp: c_isspace_def is_space_def)

lemma parse_sign_consumed:
  assumes "parse_sign s = (neg, r)"
  shows "\<exists>p. s = p @ r \<and> (\<forall>c\<in>set p. \<not> is_space c)"
proof (cases s)
  case Nil
  then have "s = [] @ r" using assms by simp
  then show ?thesis by (intro exI [of _ "[]"]) simp
next
  case (Cons c cs)
  show ?thesis
  proof (cases "c = CHR ''-'' \<or> c = CHR ''+''")
    case True
    then have "r = cs" using assms Cons by auto
    then have "s = [c] @ r" using Cons by simp
    moreover have "\<not> is_space c" using True by (auto simp: is_space_def)
    ultimately show ?thesis by (intro exI [of _ "[c]"]) simp
  next
    case False
    then have "r = s" using assms Cons by auto
    then show ?thesis by (intro exI [of _ "[]"]) simp
  qed
qed

lemma digits_consumed:
  "s = takeWhile is_digit s @ dropWhile is_digit s
     \<and> (\<forall>c\<in>set (takeWhile is_digit s). \<not> is_space c)"
  using is_digit_not_space by (auto dest: set_takeWhileD)

lemma parse_exponent_consumed:
  assumes "parse_exponent s = (e, r)"
  shows "\<exists>p. s = p @ r \<and> (\<forall>c\<in>set p. \<not> is_space c)"
proof (cases s)
  case Nil
  then have "r = s" using assms by (simp add: parse_exponent_def)
  then show ?thesis by (intro exI [of _ "[]"]) simp
next
  case (Cons c cs)
  obtain neg r' where ps: "parse_sign cs = (neg, r')"
    by (cases "parse_sign cs") blast
  show ?thesis
  proof (cases "(c = CHR ''e'' \<or> c = CHR ''E'') \<and> takeWhile is_digit r' \<noteq> []")
    case True
    then have r: "r = dropWhile is_digit r'"
      using assms Cons ps by (auto simp: parse_exponent_def Let_def)
    obtain p where p: "cs = p @ r'" "\<forall>c\<in>set p. \<not> is_space c"
      using parse_sign_consumed [OF ps] by blast
    have "\<not> is_space c" using True by (auto simp: is_space_def)
    moreover have "s = (c # p @ takeWhile is_digit r') @ r"
      using Cons p(1) r by simp
    ultimately show ?thesis
      using p(2) digits_consumed [of r']
      by (intro exI [of _ "c # p @ takeWhile is_digit r'"]) auto
  next
    case False
    then have "r = s"
      using assms Cons ps by (auto simp: parse_exponent_def Let_def split: if_splits)
    then show ?thesis by (intro exI [of _ "[]"]) simp
  qed
qed

lemma parse_decimal_consumed:
  assumes "parse_decimal s = Some (x, r)"
  shows "\<exists>p. s = p @ r \<and> (\<forall>c\<in>set p. \<not> is_space c)"
proof -
  obtain neg r0 where ps: "parse_sign s = (neg, r0)"
    by (cases "parse_sign s") blast
  obtain p0 where p0: "s = p0 @ r0" "\<forall>c\<in>set p0. \<not> is_space c"
    using parse_sign_consumed [OF ps] by blast
  have r0: "r0 = takeWhile is_digit r0 @ dropWhile is_digit r0"
    and ip: "\<forall>c\<in>set (takeWhile is_digit r0). \<not> is_space c"
    using digits_consumed [of r0] by simp_all
  define fr where "fr = (case dropWhile is_digit r0 of
      c # cs \<Rightarrow> if c = CHR ''.'' then (takeWhile is_digit cs, dropWhile is_digit cs)
                else ([], dropWhile is_digit r0)
    | [] \<Rightarrow> ([], dropWhile is_digit r0))"
  obtain pf where pf: "dropWhile is_digit r0 = pf @ snd fr" "\<forall>c\<in>set pf. \<not> is_space c"
  proof (cases "\<exists>cs. dropWhile is_digit r0 = CHR ''.'' # cs")
    case True
    then obtain cs where cs: "dropWhile is_digit r0 = CHR ''.'' # cs" by blast
    then have "snd fr = dropWhile is_digit cs" by (simp add: fr_def)
    then have "dropWhile is_digit r0 = (CHR ''.'' # takeWhile is_digit cs) @ snd fr"
      using cs by simp
    moreover have "\<forall>c\<in>set (CHR ''.'' # takeWhile is_digit cs). \<not> is_space c"
      using digits_consumed [of cs] by (simp add: is_space_def)
    ultimately show ?thesis using that by blast
  next
    case False
    then have "snd fr = dropWhile is_digit r0"
      by (auto simp: fr_def split: list.splits)
    then have "dropWhile is_digit r0 = [] @ snd fr" by simp
    then show ?thesis using that [of "[]"] by simp
  qed
  obtain e r3 where pe: "parse_exponent (snd fr) = (e, r3)"
    by (cases "parse_exponent (snd fr)") blast
  obtain px where px: "snd fr = px @ r3" "\<forall>c\<in>set px. \<not> is_space c"
    using parse_exponent_consumed [OF pe] by blast
  have "snd (the (parse_decimal s)) = snd (parse_exponent (snd fr))"
    using assms unfolding parse_decimal_def Let_def ps prod.case split_beta fr_def
    by (simp split: if_splits cong: list.case_cong if_cong)
  then have "r = r3"
    using assms pe by simp
  then have "s = (p0 @ takeWhile is_digit r0 @ pf @ px) @ r"
    using p0(1) r0 pf(1) px(1) by (metis append.assoc)
  moreover have "\<forall>c\<in>set (p0 @ takeWhile is_digit r0 @ pf @ px). \<not> is_space c"
    using p0(2) ip pf(2) px(2) by auto
  ultimately show ?thesis by blast
qed

lemma letter_not_space_list:
  "\<forall>c\<in>set [CHR 0x09, CHR 0x0A, CHR 0x0B, CHR 0x0C, CHR 0x0D, CHR 0x1C, CHR 0x1D, CHR 0x1E,
              CHR 0x1F, CHR 0x20, CHR 0x85, CHR 0xA0].
     lower_char c \<notin> set ''infatyINFATY''"
  by (simp add: lower_char_def)

lemma letter_not_space:
  "is_space c \<Longrightarrow> lower_char c \<notin> set ''infatyINFATY''"
  unfolding is_space_def using letter_not_space_list by blast

lemma startswith_lower_take:
  "startswith (lower r) p \<Longrightarrow> \<forall>c\<in>set p. c \<in> set ''infatyINFATY'' \<Longrightarrow>
   \<forall>c\<in>set (take (length p) r). \<not> is_space c"
proof (induction p arbitrary: r)
  case Nil
  show ?case by simp
next
  case (Cons p ps)
  show ?case
  proof (cases r)
    case Nil
    then show ?thesis by simp
  next
    case (Cons a as)
    then have a: "lower_char a = p" and rest: "startswith (lower as) ps"
      using Cons.prems(1) by (simp_all add: lower_def)
    have "lower_char a \<in> set ''infatyINFATY''"
      using a Cons.prems(2) by simp
    then have "\<not> is_space a" using letter_not_space by blast
    moreover have "\<forall>c\<in>set (take (length ps) as). \<not> is_space c"
      using Cons.IH [OF rest] Cons.prems(2) by simp
    ultimately show ?thesis using Cons by simp
  qed
qed

lemma parse_inf_or_nan_consumed:
  assumes "parse_inf_or_nan s = Some (x, r)"
  shows "\<exists>p. s = p @ r \<and> (\<forall>c\<in>set p. \<not> is_space c)"
proof -
  obtain neg r0 where ps: "parse_sign s = (neg, r0)"
    by (cases "parse_sign s") blast
  obtain p0 where p0: "s = p0 @ r0" "\<forall>c\<in>set p0. \<not> is_space c"
    using parse_sign_consumed [OF ps] by blast
  show ?thesis
  proof (cases "startswith (lower r0) ''inf''")
    case True
    have a: "r0 = take 3 r0 @ drop 3 r0" "\<forall>c\<in>set (take 3 r0). \<not> is_space c"
      using startswith_lower_take [OF True] by (simp_all add: eval_nat_numeral)
    show ?thesis
    proof (cases "startswith (lower (drop 3 r0)) ''inity''")
      case inity: True
      define r5 where "r5 = drop 3 r0"
      have b1: "r5 = take 5 r5 @ drop 5 r5"
        by (simp only: append_take_drop_id)
      have b2: "\<forall>c\<in>set (take 5 r5). \<not> is_space c"
        using startswith_lower_take [OF inity] by (simp add: eval_nat_numeral r5_def)
      have "r = drop 5 r5"
        using assms ps True inity by (simp add: parse_inf_or_nan_def Let_def r5_def)
      then have "s = (p0 @ take 3 r0 @ take 5 r5) @ r"
        using p0(1) a(1) b1 by (metis append.assoc r5_def)
      moreover have "\<forall>c\<in>set (p0 @ take 3 r0 @ take 5 r5). \<not> is_space c"
        using p0(2) a(2) b2 by auto
      ultimately show ?thesis by blast
    next
      case False
      then have "r = drop 3 r0"
        using assms ps True by (simp add: parse_inf_or_nan_def Let_def)
      then have "s = (p0 @ take 3 r0) @ r"
        using p0(1) a(1) by (metis append.assoc)
      moreover have "\<forall>c\<in>set (p0 @ take 3 r0). \<not> is_space c"
        using p0(2) a(2) by auto
      ultimately show ?thesis by blast
    qed
  next
    case False
    then have nan: "startswith (lower r0) ''nan''" and r: "r = drop 3 r0"
      using assms ps by (auto simp: parse_inf_or_nan_def Let_def split: if_splits)
    have a: "r0 = take 3 r0 @ drop 3 r0" "\<forall>c\<in>set (take 3 r0). \<not> is_space c"
      using startswith_lower_take [OF nan] by (simp_all add: eval_nat_numeral)
    have "s = (p0 @ take 3 r0) @ r"
      using p0(1) a(1) r by (metis append.assoc)
    moreover have "\<forall>c\<in>set (p0 @ take 3 r0). \<not> is_space c"
      using p0(2) a(2) by auto
    ultimately show ?thesis by blast
  qed
qed

lemma strtod_all_no_space:
  assumes "strtod t = Some (x, [])"
  shows "\<forall>c\<in>set t. \<not> is_space c"
proof -
  have "\<exists>p. t = p @ [] \<and> (\<forall>c\<in>set p. \<not> is_space c)"
  proof (cases "parse_decimal t")
    case None
    then have "parse_inf_or_nan t = Some (x, [])" using assms by (simp add: strtod_def)
    then show ?thesis by (rule parse_inf_or_nan_consumed)
  next
    case (Some a)
    then have "parse_decimal t = Some (x, [])" using assms by (simp add: strtod_def)
    then show ?thesis by (rule parse_decimal_consumed)
  qed
  then show ?thesis by simp
qed

lemma underscores_ok_last:
  "underscores_ok prev t \<Longrightarrow> t \<noteq> [] \<Longrightarrow> last t \<noteq> CHR ''_''"
proof (induction t arbitrary: prev)
  case Nil
  then show ?case by simp
next
  case (Cons c cs)
  show ?case
  proof (cases cs)
    case Nil
    then show ?thesis using Cons.prems(1) by (auto split: if_splits)
  next
    case (Cons d ds)
    have "underscores_ok (Some c) cs"
      using Cons.prems(1) by (auto split: if_splits)
    then have "last cs \<noteq> CHR ''_''"
      using Cons.IH Cons by blast
    then show ?thesis using Cons by simp
  qed
qed

lemma underscores_ok_first:
  "underscores_ok None t \<Longrightarrow> t \<noteq> [] \<Longrightarrow> hd t \<noteq> CHR ''_''"
  by (cases t) (auto split: if_splits)

text \<open>Trimming keeps what stands between two characters that are not trimmed.\<close>

lemma trim_keeps_middle:
  assumes "x \<in> set a" "\<not> P x" "y \<in> set b" "\<not> P y"
  shows "w \<in> set (rev (dropWhile P (rev (dropWhile P (a @ [w] @ b)))))"
proof -
  have 1: "dropWhile P (a @ [w] @ b) = dropWhile P a @ [w] @ b"
    using assms(1,2) by (simp add: dropWhile_append1)
  have "y \<in> set (rev b)" using assms(3) by simp
  then have 2: "dropWhile P (rev b @ [w] @ rev (dropWhile P a))
      = dropWhile P (rev b) @ [w] @ rev (dropWhile P a)"
    using assms(4) by (simp add: dropWhile_append1)
  have "rev (dropWhile P a @ [w] @ b) = rev b @ [w] @ rev (dropWhile P a)"
    by simp
  then show ?thesis by (simp only: 1 2) simp
qed

lemma strip_ends:
  assumes "strip u \<noteq> []"
  shows "\<not> is_space (hd (strip u)) \<and> \<not> is_space (last (strip u))"
proof -
  define v where "v = dropWhile is_space u"
  define d where "d = dropWhile is_space (rev v)"
  have s: "strip u = rev d" by (simp add: strip_def v_def d_def)
  then have dne: "d \<noteq> []" using assms by simp
  then have "\<not> is_space (hd d)" unfolding d_def by (rule hd_dropWhile)
  then have l: "\<not> is_space (last (strip u))" using s dne by (simp add: last_rev)
  have "rev v = takeWhile is_space (rev v) @ d" by (simp add: d_def)
  then have "last (rev v) = last d" using dne by (metis last_appendR)
  moreover have vne: "v \<noteq> []" using dne d_def by auto
  ultimately have "last d = hd v" by (simp add: last_rev)
  moreover have "\<not> is_space (hd v)" using vne unfolding v_def by (rule hd_dropWhile)
  ultimately have "\<not> is_space (hd (strip u))" using s dne by (simp add: hd_rev)
  then show ?thesis using l by simp
qed

lemma strip_Nil_iff: "strip s = [] \<longleftrightarrow> (\<forall>c\<in>set s. is_space c)"
proof
  assume "strip s = []"
  then have a: "\<forall>c\<in>set (dropWhile is_space s). is_space c"
    by (simp add: strip_def dropWhile_eq_Nil_conv)
  have "dropWhile is_space s = []"
  proof (rule ccontr)
    assume ne: "dropWhile is_space s \<noteq> []"
    then have "\<not> is_space (hd (dropWhile is_space s))" by (rule hd_dropWhile)
    moreover have "hd (dropWhile is_space s) \<in> set (dropWhile is_space s)"
      using ne by simp
    ultimately show False using a by blast
  qed
  then show "\<forall>c\<in>set s. is_space c" by (simp add: dropWhile_eq_Nil_conv)
next
  assume "\<forall>c\<in>set s. is_space c"
  then show "strip s = []" by (auto simp: strip_def dest: set_dropWhileD)
qed

text \<open>float() refuses a text with a whitespace character between its two ends.\<close>

lemma py_float_interior_space:
  assumes ne: "t \<noteq> []" and h: "\<not> is_space (hd t)" and l: "\<not> is_space (last t)"
    and w: "w \<in> set t" "is_space w"
  shows "py_float t = None"
proof (rule ccontr)
  assume "py_float t \<noteq> None"
  then obtain x where x: "py_float t = Some x" by blast
  define t' where "t' = c_strip (remove_char CHR ''_'' t)"
  have uo: "underscores_ok None t"
    using x by (auto simp: py_float_def split: if_splits)
  have "strtod t' = Some (x, [])"
    using x uo by (auto simp: py_float_def Let_def t'_def split: if_splits option.splits)
  then have nospace: "\<forall>c\<in>set t'. \<not> is_space c"
    by (rule strtod_all_no_space)
  obtain a b where t: "t = a @ [w] @ b"
    using w(1) by (auto simp: in_set_conv_decomp)
  have ane: "a \<noteq> []" using t h w(2) by (cases a) auto
  have bne: "b \<noteq> []" using t l w(2) by (cases b rule: rev_cases) auto
  have hda: "hd a = hd t" using t ane by simp
  have lastb: "last b = last t" using t bne by simp
  have wu: "w \<noteq> CHR ''_''" using w(2) by (auto simp: is_space_def)
  have hu: "hd a \<noteq> CHR ''_''" using underscores_ok_first [OF uo ne] hda by simp
  have lu: "last b \<noteq> CHR ''_''" using underscores_ok_last [OF uo ne] lastb by simp
  have r: "remove_char CHR ''_'' t
      = remove_char CHR ''_'' a @ [w] @ remove_char CHR ''_'' b"
    using t wu by (simp add: remove_char_def)
  have 1: "hd a \<in> set (remove_char CHR ''_'' a)"
    using ane hu by (simp add: remove_char_def)
  have 2: "last b \<in> set (remove_char CHR ''_'' b)"
    using bne lu by (simp add: remove_char_def)
  have 3: "\<not> c_isspace (hd a)" using h hda c_isspace_is_space by auto
  have 4: "\<not> c_isspace (last b)" using l lastb c_isspace_is_space by auto
  have "w \<in> set t'"
    unfolding t'_def c_strip_def r using 1 3 2 4 by (rule trim_keeps_middle)
  then show False using nospace w(2) by blast
qed

lemma cleaned_eq:
  "cleaned s = strip (filter (\<lambda>c. c \<noteq> CHR '','' \<and> c \<noteq> CHR '' '') s)"
proof -
  have "filter (\<lambda>c. c \<noteq> CHR '' '') (filter (\<lambda>c. c \<noteq> CHR '','') s)
      = filter (\<lambda>c. c \<noteq> CHR '','' \<and> c \<noteq> CHR '' '') s"
    by (simp add: conj_commute)
  then show ?thesis by (simp add: cleaned_def remove_char_def)
qed

lemma clean_currency_cleaned_eq: "clean_currency (Some s) = py_float (cleaned s)"
proof (cases "strip s = []")
  case True
  then have "\<forall>c\<in>set s. is_space c" by (simp add: strip_Nil_iff)
  then have "\<forall>c\<in>set (filter (\<lambda>c. c \<noteq> CHR '','' \<and> c \<noteq> CHR '' '') s). is_space c"
    by simp
  then have "cleaned s = []"
    by (simp only: cleaned_eq strip_Nil_iff)
  then show ?thesis using True by (simp add: clean_currency_eq py_float_Nil)
next
  case False
  then show ?thesis by (simp add: clean_currency_eq cleaned_eq)
qed

lemma clean_currency_interior_space:
  assumes "w \<in> set (cleaned s)" "is_space w"
  shows "clean_currency (Some s) = None"
proof -
  have ne: "cleaned s \<noteq> []" using assms(1) by auto
  then have "strip (remove_char CHR '' '' (remove_char CHR '','' s)) \<noteq> []"
    by (simp add: cleaned_def)
  then have "\<not> is_space (hd (cleaned s)) \<and> \<not> is_space (last (cleaned s))"
    unfolding cleaned_def by (rule strip_ends)
  then have "py_float (cleaned s) = None"
    using py_float_interior_space [OF ne _ _ assms] by blast
  then show ?thesis by (simp add: clean_currency_cleaned_eq)
qed

lemma clean_currency_no_space:
  assumes "\<forall>c\<in>set (cleaned s). \<not> is_space c"
  shows "clean_currency (Some s) = spec_clean_currency (Some s)"
proof -
  let ?f = "filter (\<lambda>c. c \<noteq> CHR '','' \<and> c \<noteq> CHR '' '') s"
  obtain a b where d: "?f = a @ strip ?f @ b" and a: "\<forall>c\<in>set a. is_space c"
    and b: "\<forall>c\<in>set b. is_space c"
    using strip_decomp by blast
  have m: "\<forall>c\<in>set (strip ?f). \<not> is_space c"
    using assms by (simp add: cleaned_eq)
  have "filter (\<lambda>c. \<not> is_space c) ?f
      = filter (\<lambda>c. \<not> is_space c) a @ filter (\<lambda>c. \<not> is_space c) (strip ?f)
          @ filter (\<lambda>c. \<not> is_space c) b"
    by (subst d) simp
  moreover have "filter (\<lambda>c. \<not> is_space c) a = []" using a by (simp add: filter_empty_conv)
  moreover have "filter (\<lambda>c. \<not> is_space c) b = []" using b by (simp add: filter_empty_conv)
  moreover have "filter (\<lambda>c. \<not> is_space c) (strip ?f) = strip ?f"
    using m by (simp add: filter_id_conv)
  ultimately have "filter (\<lambda>c. \<not> is_space c) ?f = cleaned s"
    by (simp add: cleaned_eq)
  moreover have "filter (\<lambda>c. \<not> is_space c) ?f
      = filter (\<lambda>c. c \<noteq> CHR '','' \<and> \<not> is_space c) s"
  proof -
    have sp: "is_space CHR '' ''" by (simp add: is_space_def)
    have "filter (\<lambda>c. \<not> is_space c) ?f
        = filter (\<lambda>c. (c \<noteq> CHR '','' \<and> c \<noteq> CHR '' '') \<and> \<not> is_space c) s"
      by (simp only: filter_filter)
    also have "\<dots> = filter (\<lambda>c. c \<noteq> CHR '','' \<and> \<not> is_space c) s"
      by (rule filter_cong [OF refl]) (use sp in blast)
    finally show ?thesis .
  qed
  ultimately show ?thesis
    by (simp add: clean_currency_cleaned_eq spec_clean_currency_def)
qed

text \<open>
  C4, as stated: on every cell the normalizer gives what remains after commas and all
  whitespace are removed, read as a number. It fails on a cell with a line break between
  the digits: the code removes commas and space characters, and trims the two ends, so the
  line break stays and float() refuses the text.
\<close>

theorem clean_currency_newline_counterexample:
  "clean_currency (Some (''1'' @ [CHR 0x0A] @ ''250'')) = None \<and>
   spec_clean_currency (Some (''1'' @ [CHR 0x0A] @ ''250'')) = Some (Fin 1250)"
  by (simp add: clean_currency_def spec_clean_currency_def text_eval float_eval)

text \<open>
  C4, amended: a missing cell and a cell that is empty or all whitespace give no value.
  For any other cell the text is cleaned: every comma and every space character is
  removed and the two ends are trimmed of whitespace; the result is what float() reads in
  the cleaned text, and no value where float() refuses it (the refusal is absorbed, nothing
  is raised). Whitespace other than the space character is removed at the two ends of the
  cleaned text only: when the cleaned text still holds a whitespace character the result is
  no value, and when it holds none the result is the value that the specification words,
  the number read after commas and all whitespace are removed; the second case covers every
  cell whose only inner whitespace is the space character. \<open>N/A\<close> gives no value,
  \<open>1,234.50\<close> gives 1234.5, and a \<open>5\<close>, a line break and a comma give 5.
\<close>

theorem clean_currency_cleaned:
  "clean_currency None = None \<and>
   (strip s = [] \<longrightarrow> clean_currency (Some s) = None) \<and>
   cleaned s = strip (filter (\<lambda>c. c \<noteq> CHR '','' \<and> c \<noteq> CHR '' '') s) \<and>
   clean_currency (Some s) = py_float (cleaned s) \<and>
   ((\<exists>c\<in>set (cleaned s). is_space c) \<longrightarrow> clean_currency (Some s) = None) \<and>
   ((\<forall>c\<in>set (cleaned s). \<not> is_space c) \<longrightarrow>
      clean_currency (Some s) = spec_clean_currency (Some s)) \<and>
   ((\<forall>c\<in>set (strip s). is_space c \<longrightarrow> c = CHR '' '') \<longrightarrow>
      clean_currency (Some s) = spec_clean_currency (Some s)) \<and>
   clean_currency (Some ''N/A'') = None \<and>
   clean_currency (Some ''1,234.50'') = Some (Fin (2469 / 2)) \<and>
   clean_currency (Some (''5'' @ [CHR 0x0A] @ '','')) = Some (Fin 5)"
proof (intro conjI impI)
  show "clean_currency None = None"
    by (simp add: clean_currency_def)
next
  assume "strip s = []"
  then show "clean_currency (Some s) = None"
    by (simp add: clean_currency_eq)
next
  show "cleaned s = strip (filter (\<lambda>c. c \<noteq> CHR '','' \<and> c \<noteq> CHR '' '') s)"
    by (rule cleaned_eq)
next
  show "clean_currency (Some s) = py_float (cleaned s)"
    by (rule clean_currency_cleaned_eq)
next
  assume "\<exists>c\<in>set (cleaned s). is_space c"
  then obtain w where "w \<in> set (cleaned s)" "is_space w" by blast
  then show "clean_currency (Some s) = None"
    by (rule clean_currency_interior_space)
next
  assume "\<forall>c\<in>set (cleaned s). \<not> is_space c"
  then show "clean_currency (Some s) = spec_clean_currency (Some s)"
    by (rule clean_currency_no_space)
next
  assume "\<forall>c\<in>set (strip s). is_space c \<longrightarrow> c = CHR '' ''"
  then show "clean_currency (Some s) = spec_clean_currency (Some s)"
    by (rule clean_currency_agrees)
next
  show "clean_currency (Some ''N/A'') = None"
    by (simp add: clean_currency_def text_eval float_eval)
next
  show "clean_currency (Some ''1,234.50'') = Some (Fin (2469 / 2))"
    by (simp add: clean_currency_def text_eval float_eval)
next
  show "clean_currency (Some (''5'' @ [CHR 0x0A] @ '','')) = Some (Fin 5)"
    by (simp add: clean_currency_def text_eval float_eval)
qed

theorem clean_currency_cleaned_witness:
  "cleaned '' 1, 234.50 '' = ''1234.50'' \<and>
   clean_currency (Some '' 1, 234.50 '') = spec_clean_currency (Some '' 1, 234.50 '') \<and>
   clean_currency (Some '' 1, 234.50 '') = Some (Fin (2469 / 2)) \<and>
   cleaned (''1'' @ [CHR 0x0A] @ ''250'') = ''1'' @ [CHR 0x0A] @ ''250'' \<and>
   is_space (CHR 0x0A) \<and>
   clean_currency (Some (''1'' @ [CHR 0x0A] @ ''250'')) = None \<and>
   cleaned ('','' @ [CHR 0x09] @ ''5'') = ''5'' \<and>
   clean_currency (Some ('','' @ [CHR 0x09] @ ''5''))
     = spec_clean_currency (Some ('','' @ [CHR 0x09] @ ''5'')) \<and>
   strip ''  '' = [] \<and> clean_currency (Some ''  '') = None"
proof -
  have a: "cleaned '' 1, 234.50 '' = ''1234.50''"
    by (simp add: cleaned_def text_eval)
  have a': "\<forall>c\<in>set (cleaned '' 1, 234.50 ''). \<not> is_space c"
    by (simp add: cleaned_def text_eval)
  have b: "cleaned (''1'' @ [CHR 0x0A] @ ''250'') = ''1'' @ [CHR 0x0A] @ ''250''"
    by (simp add: cleaned_def text_eval)
  have nl: "is_space (CHR 0x0A)"
    by (simp add: is_space_def)
  have b': "\<exists>c\<in>set (cleaned (''1'' @ [CHR 0x0A] @ ''250'')). is_space c"
    by (simp add: cleaned_def text_eval)
  have c: "cleaned ('','' @ [CHR 0x09] @ ''5'') = ''5''"
    by (simp add: cleaned_def text_eval)
  have c': "\<forall>c\<in>set (cleaned ('','' @ [CHR 0x09] @ ''5'')). \<not> is_space c"
    by (simp add: cleaned_def text_eval)
  have d: "strip ''  '' = []"
    by (simp add: text_eval)
  have e: "py_float ''1234.50'' = Some (Fin (2469 / 2))"
    by (simp add: text_eval float_eval)
  have 1: "clean_currency (Some '' 1, 234.50 '') = spec_clean_currency (Some '' 1, 234.50 '')"
    by (rule clean_currency_cleaned [of "'' 1, 234.50 ''", THEN conjunct2, THEN conjunct2,
          THEN conjunct2, THEN conjunct2, THEN conjunct2, THEN conjunct1, rule_format])
      (use a' in blast)
  have 2: "clean_currency (Some '' 1, 234.50 '') = Some (Fin (2469 / 2))"
    using clean_currency_cleaned [of "'' 1, 234.50 ''", THEN conjunct2, THEN conjunct2,
        THEN conjunct2, THEN conjunct1]
    by (simp only: a e)
  have 3: "clean_currency (Some (''1'' @ [CHR 0x0A] @ ''250'')) = None"
    by (rule clean_currency_cleaned [of "''1'' @ [CHR 0x0A] @ ''250''", THEN conjunct2,
          THEN conjunct2, THEN conjunct2, THEN conjunct2, THEN conjunct1, rule_format])
      (rule b')
  have 4: "clean_currency (Some ('','' @ [CHR 0x09] @ ''5''))
      = spec_clean_currency (Some ('','' @ [CHR 0x09] @ ''5''))"
    by (rule clean_currency_cleaned [of "'','' @ [CHR 0x09] @ ''5''", THEN conjunct2,
          THEN conjunct2, THEN conjunct2, THEN conjunct2, THEN conjunct2, THEN conjunct1,
          rule_format])
      (use c' in blast)
  have 5: "clean_currency (Some ''  '') = None"
    by (rule clean_currency_cleaned [of "''  ''", THEN conjunct2, THEN conjunct1, rule_format])
      (rule d)
  show ?thesis
    by (intro conjI a b nl c d 1 2 3 4 5)
qed

subsection \<open>The row loop\<close>

lemma process_row_skip:
  "is_skipped row \<Longrightarrow> process_row fn d st row = st"
  by (cases st; cases row)
     (auto simp: process_row_def is_skipped_def first_col_def raw_col_def Let_def)

lemma process_row_marker:
  "is_region_marker row \<Longrightarrow>
   process_row fn d (cur, data) row =
     (marker_region row,
      if py_any (prices_of row)
      then data @ [create_entry (Some d) (marker_region row) (marker_province row)
                     (prices_of row) fn]
      else data)"
  by (cases row)
     (auto simp: process_row_def is_region_marker_def is_skipped_def first_col_def raw_col_def
        marker_region_def marker_province_def Let_def)

lemma process_row_other:
  "\<not> is_skipped row \<Longrightarrow> \<not> is_region_marker row \<Longrightarrow>
   process_row fn d (cur, data) row =
     (cur,
      if py_any (prices_of row)
      then data @ [create_entry (Some d) cur
                     (if is_average row then ''Regional Average''
                      else strip (replace_char (CHR 0x0A) CHR '' '' (raw_col row)))
                     (prices_of row) fn]
      else data)"
  by (cases row)
     (auto simp: process_row_def is_region_marker_def is_skipped_def is_average_def
        first_col_def raw_col_def Let_def)

text \<open>Every row either leaves the records as they are or appends one record.\<close>

lemma process_row_cases:
  obtains (same) cur' where "process_row fn d (cur, data) row = (cur', data)"
  | (emit) cur' prov where "py_any (prices_of row)"
      "process_row fn d (cur, data) row =
         (cur', data @ [create_entry (Some d) cur' prov (prices_of row) fn])"
proof (cases "is_skipped row")
  case True
  then show ?thesis using same process_row_skip by blast
next
  case False
  show ?thesis
  proof (cases "is_region_marker row")
    case True
    then show ?thesis
      using same emit process_row_marker [of row fn d cur data] by (cases "py_any (prices_of row)") auto
  next
    case False
    with \<open>\<not> is_skipped row\<close> show ?thesis
      using same emit process_row_other [of row fn d cur data] by (cases "py_any (prices_of row)") auto
  qed
qed

lemma process_row_no_price:
  "\<not> py_any (prices_of row) \<Longrightarrow> snd (process_row fn d (cur, data) row) = data"
  by (rule process_row_cases [of fn d cur data row]) auto

lemma process_row_no_marker:
  "\<not> is_region_marker row \<Longrightarrow> fst (process_row fn d (cur, data) row) = cur"
  by (cases "is_skipped row") (auto simp: process_row_skip process_row_other)

lemma seven_nths:
  "length ps = 7 \<Longrightarrow> [ps ! 0, ps ! 1, ps ! 2, ps ! 3, ps ! 4, ps ! 5, ps ! 6] = ps"
proof -
  assume "length ps = 7"
  then have "length ps = Suc (Suc (Suc (Suc (Suc (Suc (Suc 0))))))" by simp
  then obtain a b c d e f g where "ps = [a, b, c, d, e, f, g]"
    by (auto simp: length_Suc_conv)
  then show ?thesis by simp
qed

lemma price_fields_create_entry:
  "price_fields (create_entry date region province prices fn)
     = take 7 (prices @ replicate 7 None)"
proof -
  define ps where "ps = take 7 (prices @ replicate 7 None)"
  have "length ps = 7" by (simp add: ps_def)
  then have "[ps ! 0, ps ! 1, ps ! 2, ps ! 3, ps ! 4, ps ! 5, ps ! 6] = ps"
    by (rule seven_nths)
  moreover have "price_fields (create_entry date region province prices fn)
      = [ps ! 0, ps ! 1, ps ! 2, ps ! 3, ps ! 4, ps ! 5, ps ! 6]"
    unfolding price_fields_def create_entry_def Let_def ps_def by simp
  ultimately show ?thesis by (simp add: ps_def)
qed

lemma length_prices_of: "length (prices_of row) \<le> 7"
  by (simp add: prices_of_def)

lemma price_fields_row:
  "price_fields (create_entry date region province (prices_of row) fn)
     = prices_of row @ replicate (7 - length (prices_of row)) None"
  using length_prices_of [of row] by (simp add: price_fields_create_entry)

lemma py_any_iff:
  "py_any ps \<longleftrightarrow> (\<exists>x. Some x \<in> set ps \<and> truthy x)"
  by (auto simp: py_any_def list_ex_iff split: option.splits)

lemma Region_create_entry [simp]:
  "Region (create_entry date region province prices fn) = Some region"
  by (simp add: create_entry_def Let_def)

lemma Province_create_entry [simp]:
  "Province (create_entry date region province prices fn) = Some province"
  by (simp add: create_entry_def Let_def)

subsection \<open>The three loops as one loop over the rows of the document\<close>

lemma foldl_nested:
  "foldl (\<lambda>st xs. foldl f st xs) st xss = foldl f st (concat xss)"
  by (induction xss arbitrary: st) simp_all

lemma foldl_nested_concat:
  "foldl (\<lambda>st xs. foldl f st (concat xs)) st xss = foldl f st (concat (concat xss))"
  by (induction xss arbitrary: st) simp_all

lemma parse_pdf_flat:
  "parse_pdf fn pages =
     (case extract_date_from_filename fn of
        None \<Rightarrow> []
      | Some d \<Rightarrow> snd (foldl (process_row fn d) (''Unknown'', []) (concat (concat pages))))"
proof -
  have "foldl (\<lambda>st page. foldl (\<lambda>st table. foldl (process_row fn d) st table) st page) st pages
      = foldl (process_row fn d) st (concat (concat pages))" for d st
  proof -
    have "(\<lambda>st page. foldl (\<lambda>st table. foldl (process_row fn d) st table) st page)
        = (\<lambda>st page. foldl (process_row fn d) st (concat page))"
      by (intro ext) (rule foldl_nested)
    then show ?thesis by (simp only: foldl_nested_concat)
  qed
  then show ?thesis by (simp only: parse_pdf_def)
qed

text \<open>One row: the records grow at the end by at most one record.\<close>

lemma process_row_step:
  "\<exists>cur' x. process_row fn d (cur, data) row = (cur', data @ x)
     \<and> (x = [] \<or> py_any (prices_of row)
          \<and> (\<exists>prov. x = [create_entry (Some d) cur' prov (prices_of row) fn]))"
proof (rule process_row_cases [of fn d cur data row])
  fix cur' assume "process_row fn d (cur, data) row = (cur', data)"
  then have "process_row fn d (cur, data) row = (cur', data @ [])" by simp
  then show ?thesis by blast
next
  fix cur' prov
  assume "py_any (prices_of row)" "process_row fn d (cur, data) row =
      (cur', data @ [create_entry (Some d) cur' prov (prices_of row) fn])"
  then show ?thesis by blast
qed

lemma process_row_keep:
  assumes "\<not> is_region_marker row"
  shows "\<exists>x. process_row fn d (cur, data) row = (cur, data @ x)
           \<and> (\<forall>e\<in>set x. Region e = Some cur)"
proof (cases "is_skipped row")
  case True
  then have "process_row fn d (cur, data) row = (cur, data @ [])"
    by (simp add: process_row_skip)
  then show ?thesis by (intro exI [of _ "[]"]) simp
next
  case False
  show ?thesis
  proof (cases "py_any (prices_of row)")
    case True
    let ?e = "create_entry (Some d) cur
                (if is_average row then ''Regional Average''
                 else strip (replace_char (CHR 0x0A) CHR '' '' (raw_col row)))
                (prices_of row) fn"
    have "process_row fn d (cur, data) row = (cur, data @ [?e])"
      using False assms True by (simp add: process_row_other)
    moreover have "\<forall>e\<in>set [?e]. Region e = Some cur" by simp
    ultimately show ?thesis by blast
  next
    case nop: False
    have "process_row fn d (cur, data) row = (cur, data @ [])"
      using False assms nop by (simp add: process_row_other)
    then show ?thesis by (intro exI [of _ "[]"]) simp
  qed
qed

text \<open>A property of the records that every new record has holds of all of them.\<close>

lemma rows_invariant:
  assumes new: "\<And>cur prov r. py_any (prices_of r) \<Longrightarrow>
                  P (create_entry (Some d) cur prov (prices_of r) fn)"
  shows "\<forall>e\<in>set data. P e \<Longrightarrow>
         \<forall>e\<in>set (snd (foldl (process_row fn d) (cur, data) rows)). P e"
proof (induction rows arbitrary: cur data)
  case Nil
  then show ?case by simp
next
  case (Cons r rows)
  obtain cur' x where step: "process_row fn d (cur, data) r = (cur', data @ x)"
    and x: "x = [] \<or> py_any (prices_of r)
              \<and> (\<exists>prov. x = [create_entry (Some d) cur' prov (prices_of r) fn])"
    using process_row_step [of fn d cur data r] by blast
  have "\<forall>e\<in>set x. P e"
    using x new by auto
  with Cons.prems have "\<forall>e\<in>set (data @ x). P e" by auto
  then have "\<forall>e\<in>set (snd (foldl (process_row fn d) (cur', data @ x) rows)). P e"
    by (rule Cons.IH)
  moreover have "foldl (process_row fn d) (cur, data) (r # rows)
      = foldl (process_row fn d) (cur', data @ x) rows"
    by (simp only: foldl_Cons step)
  ultimately show ?case by (simp only:)
qed

text \<open>Rows that are no region markers keep the region, and their records carry it.\<close>

lemma rows_keep_region:
  "\<forall>r\<in>set rows. \<not> is_region_marker r \<Longrightarrow>
   \<exists>new. foldl (process_row fn d) (cur, data) rows = (cur, data @ new)
     \<and> (\<forall>e\<in>set new. Region e = Some cur)"
proof (induction rows arbitrary: data)
  case Nil
  have "foldl (process_row fn d) (cur, data) [] = (cur, data @ [])" by simp
  then show ?case by (intro exI [of _ "[]"]) simp
next
  case (Cons r rows)
  then have nm: "\<not> is_region_marker r" and rest: "\<forall>r\<in>set rows. \<not> is_region_marker r"
    by simp_all
  obtain x where step: "process_row fn d (cur, data) r = (cur, data @ x)"
    and rx: "\<forall>e\<in>set x. Region e = Some cur"
    using process_row_keep [OF nm, of fn d cur data] by blast
  obtain new where n1: "foldl (process_row fn d) (cur, data @ x) rows = (cur, (data @ x) @ new)"
    and n2: "\<forall>e\<in>set new. Region e = Some cur"
    using Cons.IH [OF rest, of "data @ x"] by blast
  have "foldl (process_row fn d) (cur, data) (r # rows) = (cur, data @ (x @ new))"
    by (simp only: foldl_Cons step n1 append_assoc)
  moreover have "\<forall>e\<in>set (x @ new). Region e = Some cur"
    using rx n2 by auto
  ultimately show ?case by blast
qed

subsection \<open>Evaluation on concrete documents\<close>

lemma months_sorted_eq:
  "months_sorted = [''september'', ''february'', ''november'', ''december'', ''january'',
     ''october'', ''august'', ''march'', ''april'', ''june'', ''july'', ''sept'', ''may'',
     ''jan'', ''feb'', ''mar'', ''apr'', ''may'', ''jun'', ''jul'', ''aug'', ''sep'', ''oct'',
     ''nov'', ''dec'']"
  by (simp add: months_sorted_def months_def)

lemmas date_eval =
  extract_date_from_filename_def filename_lower_def months_sorted_eq match_alt_def year_at_def to_datetime_def
  month_number_def digits_val_def digit_val_def is_digit_def

lemmas row_eval =
  is_region_marker_def is_skipped_def is_average_def first_col_def raw_col_def
  marker_region_def marker_province_def spec_marker_region_def spec_marker_province_def
  prices_of_def py_any_def clean_currency_def

lemma date_jan_2023:
  "extract_date_from_filename ''jan-2023.pdf''
     = Some \<lparr> ts_year = 2023, ts_month = 1, ts_day = 1 \<rparr>"
  by (simp add: date_eval text_eval)

lemma rows_no_price:
  "\<forall>r\<in>set rows. \<not> py_any (prices_of r) \<Longrightarrow>
   snd (foldl (process_row fn d) (cur, data) rows) = data"
proof (induction rows arbitrary: cur)
  case Nil
  show ?case by simp
next
  case (Cons r rows)
  then have "snd (process_row fn d (cur, data) r) = data"
    by (simp add: process_row_no_price)
  then obtain cur' where "process_row fn d (cur, data) r = (cur', data)"
    by (metis prod.collapse)
  then show ?case using Cons by simp
qed

lemma parse_pdf_no_price:
  "\<forall>r\<in>set (concat (concat pages)). \<not> py_any (prices_of r) \<Longrightarrow> parse_pdf fn pages = []"
  by (simp only: parse_pdf_flat rows_no_price split: option.split) simp

lemma not_py_any_zero:
  "\<forall>p\<in>set ps. p = None \<or> p = Some (Fin 0) \<Longrightarrow> \<not> py_any ps"
  by (auto simp: py_any_iff)

lemma not_py_any_None: "\<forall>p\<in>set ps. p = None \<Longrightarrow> \<not> py_any ps"
  by (auto simp: py_any_iff)

lemma py_any_price_field:
  assumes "py_any (prices_of r)"
  shows "\<exists>p\<in>set (price_fields (create_entry date region province (prices_of r) fn)). p \<noteq> None"
proof -
  obtain x where "Some x \<in> set (prices_of r)"
    using assms by (auto simp: py_any_iff)
  then have "Some x \<in> set (price_fields (create_entry date region province (prices_of r) fn))"
    by (simp add: price_fields_row)
  then show ?thesis by blast
qed

subsection \<open>Region-marker rows\<close>

text \<open>
  C1, as stated: for a region-marker row the region is the first line of the trimmed
  first cell and the province label is the remaining lines joined with single spaces. It
  fails on a first cell whose lines carry blanks at the line break: the code trims the
  first line, and trims the joined rest.
\<close>

theorem region_marker_untrimmed_counterexample:
  "is_region_marker [Some (''REGION VII '' @ [CHR 0x0A] @ '' Cebu''), Some ''100''] \<and>
   process_row ''jan-2023.pdf'' \<lparr> ts_year = 2023, ts_month = 1, ts_day = 1 \<rparr> (''Unknown'', [])
       [Some (''REGION VII '' @ [CHR 0x0A] @ '' Cebu''), Some ''100'']
     = (''REGION VII'',
        [create_entry (Some \<lparr> ts_year = 2023, ts_month = 1, ts_day = 1 \<rparr>) ''REGION VII''
           ''Cebu'' [Some (Fin 100)] ''jan-2023.pdf'']) \<and>
   spec_marker_region [Some (''REGION VII '' @ [CHR 0x0A] @ '' Cebu''), Some ''100'']
     = ''REGION VII '' \<and>
   spec_marker_province [Some (''REGION VII '' @ [CHR 0x0A] @ '' Cebu''), Some ''100'']
     = '' Cebu''"
  by (simp add: process_row_def Let_def row_eval text_eval float_eval)

text \<open>
  C1, amended: for every row that reaches the region branch (its trimmed, upper-case first
  cell contains \<open>REGION\<close> or is one of \<open>CAR\<close>, \<open>CARAGA\<close>, \<open>BARMM\<close>, and no earlier rule
  skipped it), the new region is the first line of the trimmed first cell, itself trimmed;
  the province label is \<open>Regional Summary\<close> when the cell has one line, and otherwise the
  remaining lines joined with single spaces, trimmed; the prices are the normalized next
  seven cells, and the record is appended when some price is true.
\<close>

theorem region_marker_row:
  assumes "is_region_marker row"
  shows "process_row fn d (cur, data) row =
           (strip (spec_marker_region row),
            if py_any (prices_of row)
            then data @ [create_entry (Some d) (strip (spec_marker_region row))
                           (if length (split_nl (raw_col row)) = 1 then ''Regional Summary''
                            else strip (spec_marker_province row))
                           (prices_of row) fn]
            else data)
         \<and> prices_of row = map clean_currency (take 7 (drop 1 row))"
proof -
  have "marker_region row = strip (spec_marker_region row)"
    by (simp add: marker_region_def spec_marker_region_def)
  moreover have "marker_province row =
      (if length (split_nl (raw_col row)) = 1 then ''Regional Summary''
       else strip (spec_marker_province row))"
    by (simp add: marker_province_def spec_marker_province_def)
  ultimately show ?thesis
    using process_row_marker [OF assms, of fn d cur data] by (simp add: prices_of_def)
qed

theorem region_marker_row_witness:
  "is_region_marker [Some ''CARAGA'', Some ''850'', Some ''900'', None, None, None, None, None] \<and>
   process_row ''jan-2023.pdf'' \<lparr> ts_year = 2023, ts_month = 1, ts_day = 1 \<rparr> (''Unknown'', [])
       [Some ''CARAGA'', Some ''850'', Some ''900'', None, None, None, None, None]
     = (''CARAGA'',
        [create_entry (Some \<lparr> ts_year = 2023, ts_month = 1, ts_day = 1 \<rparr>) ''CARAGA''
           ''Regional Summary'' [Some (Fin 850), Some (Fin 900), None, None, None, None, None]
           ''jan-2023.pdf''])"
proof -
  let ?row = "[Some ''CARAGA'', Some ''850'', Some ''900'', None, None, None, None, None]"
  have m: "is_region_marker ?row"
    by (simp add: row_eval text_eval)
  have p: "prices_of ?row = [Some (Fin 850), Some (Fin 900), None, None, None, None, None]"
    by (simp add: row_eval text_eval float_eval)
  have r: "strip (spec_marker_region ?row) = ''CARAGA''" "length (split_nl (raw_col ?row)) = 1"
    by (simp_all add: row_eval text_eval)
  have a: "py_any [Some (Fin 850), Some (Fin 900), None, None, None, None, None]"
    by (simp add: py_any_def)
  show ?thesis
    using region_marker_row [OF m, of "''jan-2023.pdf''"
        "\<lparr> ts_year = 2023, ts_month = 1, ts_day = 1 \<rparr>" "''Unknown''" "[]"] m
    by (simp only: p r a if_True append_Nil) simp
qed

subsection \<open>Records and prices\<close>

text \<open>
  C2: every record that the document parser emits has a price field that is not null;
  a row whose normalized price cells are all null adds no record, whatever branch it
  takes, and a document of such rows gives no record.
\<close>

theorem emitted_records_have_a_price:
  "(\<forall>e\<in>set (parse_pdf fn pages). \<exists>p\<in>set (price_fields e). p \<noteq> None) \<and>
   ((\<forall>p\<in>set (prices_of row). p = None) \<longrightarrow>
      snd (process_row fn d (cur, data) row) = data) \<and>
   ((\<forall>r\<in>set (concat (concat pages)). \<forall>p\<in>set (prices_of r). p = None) \<longrightarrow>
      parse_pdf fn pages = [])"
proof (intro conjI impI)
  show "\<forall>e\<in>set (parse_pdf fn pages). \<exists>p\<in>set (price_fields e). p \<noteq> None"
  proof (cases "extract_date_from_filename fn")
    case None
    then show ?thesis by (simp add: parse_pdf_flat)
  next
    case (Some d')
    have "\<forall>e\<in>set (snd (foldl (process_row fn d') (''Unknown'', []) (concat (concat pages)))).
            \<exists>p\<in>set (price_fields e). p \<noteq> None"
    proof (rule rows_invariant)
      fix cur prov r
      assume "py_any (prices_of r)"
      then show "\<exists>p\<in>set (price_fields (create_entry (Some d') cur prov (prices_of r) fn)).
                   p \<noteq> None"
        by (rule py_any_price_field)
    next
      show "\<forall>e\<in>set []. \<exists>p\<in>set (price_fields e). p \<noteq> None" by simp
    qed
    then show ?thesis using Some by (simp add: parse_pdf_flat)
  qed
next
  assume "\<forall>p\<in>set (prices_of row). p = None"
  then have "\<not> py_any (prices_of row)" by (rule not_py_any_None)
  then show "snd (process_row fn d (cur, data) row) = data"
    by (rule process_row_no_price)
next
  assume "\<forall>r\<in>set (concat (concat pages)). \<forall>p\<in>set (prices_of r). p = None"
  then have "\<forall>r\<in>set (concat (concat pages)). \<not> py_any (prices_of r)"
    using not_py_any_None by blast
  then show "parse_pdf fn pages = []" by (rule parse_pdf_no_price)
qed

theorem emitted_records_have_a_price_witness:
  "parse_pdf ''jan-2023.pdf'' [[[[Some ''Cebu'', None, Some ''N/A''], [Some ''Bohol'', Some ''5'']]]]
     = [create_entry (Some \<lparr> ts_year = 2023, ts_month = 1, ts_day = 1 \<rparr>) ''Unknown'' ''Bohol''
          [Some (Fin 5)] ''jan-2023.pdf''] \<and>
   price_fields (create_entry (Some \<lparr> ts_year = 2023, ts_month = 1, ts_day = 1 \<rparr>) ''Unknown''
          ''Bohol'' [Some (Fin 5)] ''jan-2023.pdf'')
     = [Some (Fin 5), None, None, None, None, None, None] \<and>
   prices_of [Some ''Cebu'', None, Some ''N/A''] = [None, None] \<and>
   snd (process_row ''jan-2023.pdf'' \<lparr> ts_year = 2023, ts_month = 1, ts_day = 1 \<rparr>
          (''Unknown'', []) [Some ''Cebu'', None, Some ''N/A'']) = [] \<and>
   parse_pdf ''jan-2023.pdf'' [[[[Some ''Cebu'', None, Some ''N/A'']]]] = []"
proof -
  have a: "prices_of [Some ''Cebu'', None, Some ''N/A''] = [None, None]"
    by (simp add: row_eval text_eval float_eval)
  have b: "parse_pdf ''jan-2023.pdf''
      [[[[Some ''Cebu'', None, Some ''N/A''], [Some ''Bohol'', Some ''5'']]]]
     = [create_entry (Some \<lparr> ts_year = 2023, ts_month = 1, ts_day = 1 \<rparr>) ''Unknown'' ''Bohol''
          [Some (Fin 5)] ''jan-2023.pdf'']"
    by (simp add: parse_pdf_def date_jan_2023 process_row_def row_eval text_eval float_eval)
  have c: "price_fields (create_entry (Some \<lparr> ts_year = 2023, ts_month = 1, ts_day = 1 \<rparr>)
          ''Unknown'' ''Bohol'' [Some (Fin 5)] ''jan-2023.pdf'')
     = [Some (Fin 5), None, None, None, None, None, None]"
    by (simp add: price_fields_create_entry numeral_eq_Suc)
  show ?thesis
    using emitted_records_have_a_price [of "''jan-2023.pdf''"
        "[[[[Some ''Cebu'', None, Some ''N/A'']]]]" "[Some ''Cebu'', None, Some ''N/A'']"
        "\<lparr> ts_year = 2023, ts_month = 1, ts_day = 1 \<rparr>" "''Unknown''" "[]"]
      a b c by simp
qed

text \<open>
  C9: a row whose normalized price cells are each null or zero adds no record: the test
  before the append is the truth value of the prices, and zero is false. A row whose only
  price is 0, a value that is not null, is dropped like a row with no price.
\<close>

theorem zero_priced_rows_discarded:
  "((\<forall>p\<in>set (prices_of row). p = None \<or> p = Some (Fin 0)) \<longrightarrow>
      snd (process_row fn d (cur, data) row) = data) \<and>
   ((\<forall>r\<in>set (concat (concat pages)). \<forall>p\<in>set (prices_of r). p = None \<or> p = Some (Fin 0)) \<longrightarrow>
      parse_pdf fn pages = []) \<and>
   clean_currency (Some ''0'') = Some (Fin 0)"
proof (intro conjI impI)
  assume "\<forall>p\<in>set (prices_of row). p = None \<or> p = Some (Fin 0)"
  then have "\<not> py_any (prices_of row)" by (rule not_py_any_zero)
  then show "snd (process_row fn d (cur, data) row) = data"
    by (rule process_row_no_price)
next
  assume "\<forall>r\<in>set (concat (concat pages)). \<forall>p\<in>set (prices_of r). p = None \<or> p = Some (Fin 0)"
  then have "\<forall>r\<in>set (concat (concat pages)). \<not> py_any (prices_of r)"
    using not_py_any_zero by blast
  then show "parse_pdf fn pages = []" by (rule parse_pdf_no_price)
next
  show "clean_currency (Some ''0'') = Some (Fin 0)"
    by (simp add: clean_currency_def text_eval float_eval)
qed

theorem zero_priced_rows_discarded_witness:
  "prices_of [Some ''Cebu'', Some ''0'', None, Some ''0.00''] = [Some (Fin 0), None, Some (Fin 0)] \<and>
   snd (process_row ''jan-2023.pdf'' \<lparr> ts_year = 2023, ts_month = 1, ts_day = 1 \<rparr>
          (''REGION VII'', []) [Some ''Cebu'', Some ''0'', None, Some ''0.00'']) = [] \<and>
   parse_pdf ''jan-2023.pdf'' [[[[Some ''Cebu'', Some ''0'', None, Some ''0.00'']]]] = []"
proof -
  have a: "prices_of [Some ''Cebu'', Some ''0'', None, Some ''0.00'']
      = [Some (Fin 0), None, Some (Fin 0)]"
    by (simp add: row_eval text_eval float_eval)
  show ?thesis
    using zero_priced_rows_discarded [of "[Some ''Cebu'', Some ''0'', None, Some ''0.00'']"
        "''jan-2023.pdf''" "\<lparr> ts_year = 2023, ts_month = 1, ts_day = 1 \<rparr>" "''REGION VII''" "[]"
        "[[[[Some ''Cebu'', Some ''0'', None, Some ''0.00'']]]]"] a
    by simp
qed

subsection \<open>The region context\<close>

lemma parse_pdf_after_marker:
  assumes rows: "concat (concat pages) = pre @ [m] @ mid"
    and m: "is_region_marker m"
    and mid: "\<forall>r\<in>set mid. \<not> is_region_marker r"
  shows "\<exists>new. parse_pdf fn pages = parse_pdf fn [[pre]] @ new
           \<and> (\<forall>e\<in>set new. Region e = Some (marker_region m))"
proof (cases "extract_date_from_filename fn")
  case None
  then show ?thesis by (simp add: parse_pdf_flat)
next
  case (Some d)
  obtain cur data where st: "foldl (process_row fn d) (''Unknown'', []) pre = (cur, data)"
    by (cases "foldl (process_row fn d) (''Unknown'', []) pre") blast
  define x where "x = (if py_any (prices_of m)
      then [create_entry (Some d) (marker_region m) (marker_province m) (prices_of m) fn]
      else [])"
  have step: "process_row fn d (cur, data) m = (marker_region m, data @ x)"
    using process_row_marker [OF m, of fn d cur data] by (simp add: x_def)
  have rx: "\<forall>e\<in>set x. Region e = Some (marker_region m)"
    by (simp add: x_def)
  obtain new where n1: "foldl (process_row fn d) (marker_region m, data @ x) mid
        = (marker_region m, (data @ x) @ new)"
    and n2: "\<forall>e\<in>set new. Region e = Some (marker_region m)"
    using rows_keep_region [OF mid, of fn d "marker_region m" "data @ x"] by blast
  have "foldl (process_row fn d) (''Unknown'', []) (pre @ [m] @ mid)
      = (marker_region m, data @ (x @ new))"
    by (simp only: foldl_append foldl_Cons foldl_Nil st step n1 append_assoc)
  then have "parse_pdf fn pages = data @ (x @ new)"
    using Some rows by (simp add: parse_pdf_flat)
  moreover have "parse_pdf fn [[pre]] = data"
    using Some st by (simp add: parse_pdf_flat)
  moreover have "\<forall>e\<in>set (x @ new). Region e = Some (marker_region m)"
    using rx n2 by auto
  ultimately show ?thesis by blast
qed

lemma parse_pdf_no_marker:
  assumes "\<forall>r\<in>set (concat (concat pages)). \<not> is_region_marker r"
  shows "\<forall>e\<in>set (parse_pdf fn pages). Region e = Some ''Unknown''"
proof (cases "extract_date_from_filename fn")
  case None
  then show ?thesis by (simp add: parse_pdf_flat)
next
  case (Some d)
  obtain new where "foldl (process_row fn d) (''Unknown'', []) (concat (concat pages))
        = (''Unknown'', [] @ new)"
    and "\<forall>e\<in>set new. Region e = Some ''Unknown''"
    using rows_keep_region [OF assms, of fn d "''Unknown''" "[]"] by blast
  then show ?thesis using Some by (simp add: parse_pdf_flat)
qed

text \<open>
  C5: the region starts as \<open>Unknown\<close>, so the records of a document with no region-marker
  row carry \<open>Unknown\<close>; a row that is no region marker leaves the region as it is, and a
  region-marker row sets it; the three loops are one loop over the rows of the document in
  order, so the region passes from table to table and from page to page; and when the rows
  of the document are \<open>pre\<close>, a region-marker row \<open>m\<close> and rows \<open>mid\<close> with no region marker
  among them, whatever else \<open>mid\<close> holds, every record after those of \<open>pre\<close> carries the
  region of \<open>m\<close>.
\<close>

theorem region_context_persists:
  "((\<forall>r\<in>set (concat (concat pages)). \<not> is_region_marker r) \<longrightarrow>
      (\<forall>e\<in>set (parse_pdf fn pages). Region e = Some ''Unknown'')) \<and>
   (\<not> is_region_marker row \<longrightarrow> fst (process_row fn d (cur, data) row) = cur) \<and>
   (is_region_marker row \<longrightarrow> fst (process_row fn d (cur, data) row) = marker_region row) \<and>
   parse_pdf fn pages = parse_pdf fn [[concat (concat pages)]] \<and>
   (concat (concat pages) = pre @ [m] @ mid \<and> is_region_marker m
      \<and> (\<forall>r\<in>set mid. \<not> is_region_marker r) \<longrightarrow>
      (\<exists>new. parse_pdf fn pages = parse_pdf fn [[pre]] @ new
         \<and> (\<forall>e\<in>set new. Region e = Some (marker_region m))))"
proof (intro conjI impI)
  assume "\<forall>r\<in>set (concat (concat pages)). \<not> is_region_marker r"
  then show "\<forall>e\<in>set (parse_pdf fn pages). Region e = Some ''Unknown''"
    by (rule parse_pdf_no_marker)
next
  assume "\<not> is_region_marker row"
  then show "fst (process_row fn d (cur, data) row) = cur"
    by (rule process_row_no_marker)
next
  assume "is_region_marker row"
  then show "fst (process_row fn d (cur, data) row) = marker_region row"
    by (simp add: process_row_marker)
next
  show "parse_pdf fn pages = parse_pdf fn [[concat (concat pages)]]"
    by (simp only: parse_pdf_flat concat.simps append_Nil2)
next
  assume "concat (concat pages) = pre @ [m] @ mid \<and> is_region_marker m
      \<and> (\<forall>r\<in>set mid. \<not> is_region_marker r)"
  then show "\<exists>new. parse_pdf fn pages = parse_pdf fn [[pre]] @ new
         \<and> (\<forall>e\<in>set new. Region e = Some (marker_region m))"
    using parse_pdf_after_marker by blast
qed

text \<open>
  A document of two pages: a province row before any marker, the marker \<open>REGION VII\<close>, a
  header row that is skipped, and on the next page a province row.
\<close>

theorem region_context_persists_witness:
  "concat (concat [[[[Some ''Abra'', Some ''7''], [Some ''REGION VII'']],
                    [[Some ''REGION/PROVINCE'', Some ''46-0-0'']]],
                   [[[Some ''Cebu'', Some ''100'']]]])
     = [[Some ''Abra'', Some ''7'']] @ [[Some ''REGION VII'']]
         @ [[Some ''REGION/PROVINCE'', Some ''46-0-0''], [Some ''Cebu'', Some ''100'']] \<and>
   is_region_marker [Some ''REGION VII''] \<and>
   marker_region [Some ''REGION VII''] = ''REGION VII'' \<and>
   is_skipped [Some ''REGION/PROVINCE'', Some ''46-0-0''] \<and>
   map Region (parse_pdf ''jan-2023.pdf''
       [[[[Some ''Abra'', Some ''7''], [Some ''REGION VII'']],
         [[Some ''REGION/PROVINCE'', Some ''46-0-0'']]],
        [[[Some ''Cebu'', Some ''100'']]]])
     = [Some ''Unknown'', Some ''REGION VII''] \<and>
   map Province (parse_pdf ''jan-2023.pdf''
       [[[[Some ''Abra'', Some ''7''], [Some ''REGION VII'']],
         [[Some ''REGION/PROVINCE'', Some ''46-0-0'']]],
        [[[Some ''Cebu'', Some ''100'']]]])
     = [Some ''Abra'', Some ''Cebu''] \<and>
   (\<exists>new. parse_pdf ''jan-2023.pdf''
       [[[[Some ''Abra'', Some ''7''], [Some ''REGION VII'']],
         [[Some ''REGION/PROVINCE'', Some ''46-0-0'']]],
        [[[Some ''Cebu'', Some ''100'']]]]
      = parse_pdf ''jan-2023.pdf'' [[[[Some ''Abra'', Some ''7'']]]] @ new
      \<and> list_all (\<lambda>e. Region e = Some ''REGION VII'') new)"
proof -
  let ?pages = "[[[[Some ''Abra'', Some ''7''], [Some ''REGION VII'']],
                  [[Some ''REGION/PROVINCE'', Some ''46-0-0'']]],
                 [[[Some ''Cebu'', Some ''100'']]]]"
  have m: "is_region_marker [Some ''REGION VII'']"
    by (simp add: row_eval text_eval)
  have mr: "marker_region [Some ''REGION VII''] = ''REGION VII''"
    by (simp add: row_eval text_eval)
  have sk: "is_skipped [Some ''REGION/PROVINCE'', Some ''46-0-0'']"
    by (simp add: row_eval text_eval)
  have nm: "\<not> is_region_marker [Some ''REGION/PROVINCE'', Some ''46-0-0'']"
    "\<not> is_region_marker [Some ''Cebu'', Some ''100'']"
    by (simp_all add: row_eval text_eval)
  have p: "parse_pdf ''jan-2023.pdf'' ?pages
      = [create_entry (Some \<lparr> ts_year = 2023, ts_month = 1, ts_day = 1 \<rparr>) ''Unknown'' ''Abra''
           [Some (Fin 7)] ''jan-2023.pdf'',
         create_entry (Some \<lparr> ts_year = 2023, ts_month = 1, ts_day = 1 \<rparr>) ''REGION VII''
           ''Cebu'' [Some (Fin 100)] ''jan-2023.pdf'']"
    by (simp add: parse_pdf_def date_jan_2023 process_row_def Let_def row_eval text_eval
        float_eval)
  have hyp: "concat (concat ?pages) = [[Some ''Abra'', Some ''7'']] @ [[Some ''REGION VII'']]
        @ [[Some ''REGION/PROVINCE'', Some ''46-0-0''], [Some ''Cebu'', Some ''100'']]
      \<and> is_region_marker [Some ''REGION VII'']
      \<and> (\<forall>r\<in>set [[Some ''REGION/PROVINCE'', Some ''46-0-0''], [Some ''Cebu'', Some ''100'']].
            \<not> is_region_marker r)"
    using m nm by simp
  have "\<exists>new. parse_pdf ''jan-2023.pdf'' ?pages
      = parse_pdf ''jan-2023.pdf'' [[[[Some ''Abra'', Some ''7'']]]] @ new
      \<and> (\<forall>e\<in>set new. Region e = Some (marker_region [Some ''REGION VII'']))"
    using region_context_persists [where pages = ?pages and fn = "''jan-2023.pdf''"
        and row = "[Some ''REGION VII'']"
        and d = "\<lparr> ts_year = 2023, ts_month = 1, ts_day = 1 \<rparr>" and cur = "''Unknown''"
        and data = "[]" and pre = "[[Some ''Abra'', Some ''7'']]" and m = "[Some ''REGION VII'']"
        and mid = "[[Some ''REGION/PROVINCE'', Some ''46-0-0''], [Some ''Cebu'', Some ''100'']]"]
      hyp by blast
  then have "\<exists>new. parse_pdf ''jan-2023.pdf'' ?pages
      = parse_pdf ''jan-2023.pdf'' [[[[Some ''Abra'', Some ''7'']]]] @ new
      \<and> list_all (\<lambda>e. Region e = Some ''REGION VII'') new"
    by (simp only: mr list_all_iff)
  moreover have "concat (concat ?pages) = [[Some ''Abra'', Some ''7'']] @ [[Some ''REGION VII'']]
        @ [[Some ''REGION/PROVINCE'', Some ''46-0-0''], [Some ''Cebu'', Some ''100'']]"
    by simp
  moreover have "map Region (parse_pdf ''jan-2023.pdf'' ?pages)
      = [Some ''Unknown'', Some ''REGION VII'']"
    by (simp add: p)
  moreover have "map Province (parse_pdf ''jan-2023.pdf'' ?pages) = [Some ''Abra'', Some ''Cebu'']"
    by (simp add: p)
  ultimately show ?thesis
    using m mr sk by blast
qed

subsection \<open>The date of a document\<close>

lemma year_at_iff:
  "year_at s \<longleftrightarrow>
     (\<exists>c d post. s = CHR ''2'' # CHR ''0'' # c # d # post \<and> is_digit c \<and> is_digit d)"
  by (auto simp: year_at_def split: list.splits)

lemma search_year_Some:
  "search_year s = Some y \<Longrightarrow>
   \<exists>pre c d post. s = pre @ y @ post \<and> y = [CHR ''2'', CHR ''0'', c, d]
     \<and> is_digit c \<and> is_digit d"
proof (induction s)
  case Nil
  then show ?case by simp
next
  case (Cons x xs)
  show ?case
  proof (cases "year_at (x # xs)")
    case True
    then obtain c d post where s: "x # xs = CHR ''2'' # CHR ''0'' # c # d # post"
      and cd: "is_digit c" "is_digit d"
      using year_at_iff by blast
    have "y = [CHR ''2'', CHR ''0'', c, d]"
      using Cons.prems True s by simp
    then have "x # xs = [] @ y @ post" using s by simp
    then show ?thesis using cd \<open>y = [CHR ''2'', CHR ''0'', c, d]\<close> by blast
  next
    case False
    then have "search_year xs = Some y" using Cons.prems by simp
    then obtain pre c d post where "xs = pre @ y @ post" "y = [CHR ''2'', CHR ''0'', c, d]"
      "is_digit c" "is_digit d"
      using Cons.IH by blast
    then have "x # xs = (x # pre) @ y @ post" by simp
    then show ?thesis
      using \<open>y = [CHR ''2'', CHR ''0'', c, d]\<close> \<open>is_digit c\<close> \<open>is_digit d\<close> by blast
  qed
qed

lemma search_year_None_iff:
  "search_year s = None \<longleftrightarrow>
     \<not> (\<exists>pre c d post. s = pre @ [CHR ''2'', CHR ''0'', c, d] @ post
           \<and> is_digit c \<and> is_digit d)"
proof (induction s)
  case Nil
  show ?case by simp
next
  case (Cons x xs)
  have split: "(\<exists>pre c d post. x # xs = pre @ [CHR ''2'', CHR ''0'', c, d] @ post
                  \<and> is_digit c \<and> is_digit d)
      \<longleftrightarrow> year_at (x # xs)
          \<or> (\<exists>pre c d post. xs = pre @ [CHR ''2'', CHR ''0'', c, d] @ post
                \<and> is_digit c \<and> is_digit d)"
    (is "?L \<longleftrightarrow> ?A \<or> ?B")
  proof
    assume ?L
    then obtain pre c d post where e: "x # xs = pre @ [CHR ''2'', CHR ''0'', c, d] @ post"
      and cd: "is_digit c" "is_digit d" by blast
    show "?A \<or> ?B"
    proof (cases pre)
      case Nil
      then have "x # xs = CHR ''2'' # CHR ''0'' # c # d # post" using e by simp
      then show ?thesis using cd year_at_iff by blast
    next
      case (Cons p ps)
      then have "xs = ps @ [CHR ''2'', CHR ''0'', c, d] @ post" using e by simp
      then show ?thesis using cd by blast
    qed
  next
    assume "?A \<or> ?B"
    then show ?L
    proof
      assume ?A
      then obtain c d post where "x # xs = CHR ''2'' # CHR ''0'' # c # d # post"
        "is_digit c" "is_digit d"
        using year_at_iff by blast
      then have "x # xs = [] @ [CHR ''2'', CHR ''0'', c, d] @ post \<and> is_digit c \<and> is_digit d"
        by simp
      then show ?L by blast
    next
      assume ?B
      then obtain pre c d post where "xs = pre @ [CHR ''2'', CHR ''0'', c, d] @ post"
        "is_digit c" "is_digit d" by blast
      then have "x # xs = (x # pre) @ [CHR ''2'', CHR ''0'', c, d] @ post
          \<and> is_digit c \<and> is_digit d" by simp
      then show ?L by blast
    qed
  qed
  show ?case
    using Cons.IH by (simp only: split search_year.simps split: if_splits) auto
qed

lemma startswith_iff: "startswith s p \<longleftrightarrow> (\<exists>post. s = p @ post)"
  by (induction s p rule: startswith.induct) auto

lemma match_alt_None_iff:
  "match_alt alts s = None \<longleftrightarrow> (\<forall>a\<in>set alts. \<not> startswith s a)"
  by (auto simp: match_alt_def find_None_iff)

lemma match_alt_Some:
  "match_alt alts s = Some m \<Longrightarrow> m \<in> set alts \<and> startswith s m"
  by (auto simp: match_alt_def find_Some_iff)

lemma search_alt_None_iff:
  "search_alt alts s = None \<longleftrightarrow> (\<forall>a\<in>set alts. \<not> py_in a s)"
proof (induction s)
  case Nil
  have "startswith [] a \<longleftrightarrow> a = []" for a :: string
    by (cases a) simp_all
  then show ?case by (simp add: match_alt_None_iff)
next
  case (Cons c cs)
  have "search_alt alts (c # cs) = None
      \<longleftrightarrow> match_alt alts (c # cs) = None \<and> search_alt alts cs = None"
    by (simp split: option.splits)
  then show ?case
    using Cons.IH by (auto simp: match_alt_None_iff)
qed

lemma search_alt_Some:
  "search_alt alts s = Some m \<Longrightarrow> \<exists>pre rest. s = pre @ rest \<and> match_alt alts rest = Some m"
proof (induction s)
  case Nil
  then have "match_alt alts [] = Some m" by simp
  then show ?case by (intro exI [of _ "[]"]) simp
next
  case (Cons c cs)
  show ?case
  proof (cases "match_alt alts (c # cs)")
    case None
    then have "search_alt alts cs = Some m" using Cons.prems by simp
    then obtain pre rest where "cs = pre @ rest" "match_alt alts rest = Some m"
      using Cons.IH by blast
    then show ?thesis by (intro exI [of _ "c # pre"] exI [of _ rest]) simp
  next
    case (Some a)
    then have "match_alt alts (c # cs) = Some m" using Cons.prems by simp
    then show ?thesis by (intro exI [of _ "[]"] exI [of _ "c # cs"]) simp
  qed
qed

text \<open>In a list of alternatives with the longer ones first, the one that is taken is a longest one that fits.\<close>

lemma match_alt_longest:
  assumes "sorted_wrt (\<lambda>a b. length b \<le> length a) alts"
    and "match_alt alts s = Some m"
    and "m' \<in> set alts" and "startswith s m'"
  shows "length m' \<le> length m"
proof -
  obtain i where i: "i < length alts" "m = alts ! i" "\<forall>j<i. \<not> startswith s (alts ! j)"
    using assms(2) by (auto simp: match_alt_def find_Some_iff)
  obtain k where k: "k < length alts" "m' = alts ! k"
    using assms(3) by (auto simp: in_set_conv_nth)
  have "\<not> k < i" using i(3) k(2) assms(4) by blast
  then have "k = i \<or> i < k" by auto
  then show ?thesis
  proof
    assume "k = i"
    then show ?thesis using i k by simp
  next
    assume "i < k"
    then show ?thesis
      using assms(1) i k by (simp add: sorted_wrt_iff_nth_less)
  qed
qed

lemma months_sorted_longer_first:
  "sorted_wrt (\<lambda>a b. length b \<le> length a) months_sorted"
  by (simp add: months_sorted_eq)

lemma set_months_sorted: "set months_sorted = set months"
  by (simp add: months_sorted_def)

lemma month_token_number:
  "m \<in> set months \<Longrightarrow>
   \<exists>k. month_number (lower (if m = ''sept'' then ''sep'' else m)) = Some k \<and> 1 \<le> k \<and> k \<le> 12
     \<and> month_number (if m = ''sept'' then ''sep'' else m) = Some k"
  by (auto simp: months_def month_number_def lower_def lower_char_def)

lemma search_month_Some:
  assumes "search_alt months_sorted s = Some m"
  shows "m \<in> set months \<and>
         (\<exists>pre post. s = pre @ m @ post
            \<and> (\<forall>m'\<in>set months. startswith (m @ post) m' \<longrightarrow> length m' \<le> length m))"
proof -
  obtain pre rest where s: "s = pre @ rest" and r: "match_alt months_sorted rest = Some m"
    using search_alt_Some [OF assms] by blast
  have m: "m \<in> set months" and sw: "startswith rest m"
    using match_alt_Some [OF r] by (simp_all add: set_months_sorted)
  obtain post where rest: "rest = m @ post"
    using sw startswith_iff by blast
  have "\<forall>m'\<in>set months. startswith (m @ post) m' \<longrightarrow> length m' \<le> length m"
    using match_alt_longest [OF months_sorted_longer_first r] rest
    by (simp add: set_months_sorted)
  moreover have "s = pre @ m @ post" using s rest by simp
  ultimately have "\<exists>pre post. s = pre @ m @ post
      \<and> (\<forall>m'\<in>set months. startswith (m @ post) m' \<longrightarrow> length m' \<le> length m)"
    by (intro exI [of _ pre] exI [of _ post]) simp
  then show ?thesis using m by simp
qed

lemma extract_date_Some:
  assumes "search_alt months_sorted (filename_lower fn) = Some m"
    and "search_year (filename_lower fn) = Some y"
  shows "\<exists>k. month_number (if m = ''sept'' then ''sep'' else m) = Some k \<and> 1 \<le> k \<and> k \<le> 12
           \<and> extract_date_from_filename fn
               = Some \<lparr> ts_year = int (digits_val y), ts_month = k, ts_day = 1 \<rparr>"
proof -
  have m: "m \<in> set months"
    using search_month_Some [OF assms(1)] by blast
  then have "m \<noteq> []" by (auto simp: months_def)
  moreover have "y \<noteq> []" using search_year_Some [OF assms(2)] by auto
  moreover obtain k where k: "month_number (lower (if m = ''sept'' then ''sep'' else m)) = Some k"
      "1 \<le> k" "k \<le> 12" "month_number (if m = ''sept'' then ''sep'' else m) = Some k"
    using month_token_number [OF m] by blast
  ultimately have "extract_date_from_filename fn
      = Some \<lparr> ts_year = int (digits_val y), ts_month = k, ts_day = 1 \<rparr>"
    using assms by (simp add: extract_date_from_filename_def to_datetime_def Let_def)
  then show ?thesis using k by blast
qed

lemma extract_date_None:
  "search_alt months_sorted (filename_lower fn) = None
     \<or> search_year (filename_lower fn) = None \<Longrightarrow>
   extract_date_from_filename fn = None"
  by (auto simp: extract_date_from_filename_def Let_def split: option.splits)

text \<open>
  C3: the name is put in lower case with \<open>_\<close> and \<open>.\<close> replaced by \<open>-\<close>. The year search
  fails exactly when the name holds no \<open>20\<close> followed by two digits, and what it finds is
  such a piece; the month search fails exactly when no month token occurs in the name, and
  what it finds is a token that occurs in the name and is as long as any token that fits
  at that place, the tokens being tried in an order with the longer ones first. When both
  searches succeed the result is the first day of the month of the token (\<open>sept\<close> read as
  \<open>sep\<close>) in the year found; when one of them fails the result is undetermined; and for an
  undetermined date the document parser returns no record.
\<close>

theorem filename_date_inference:
  "filename_lower fn
     = map (\<lambda>c. if lower_char c = CHR ''_'' \<or> lower_char c = CHR ''.'' then CHR ''-''
                 else lower_char c) fn \<and>
   (search_year (filename_lower fn) = None \<longleftrightarrow>
      \<not> (\<exists>pre c d post. filename_lower fn = pre @ [CHR ''2'', CHR ''0'', c, d] @ post
            \<and> is_digit c \<and> is_digit d)) \<and>
   (\<forall>y. search_year (filename_lower fn) = Some y \<longrightarrow>
      (\<exists>pre c d post. filename_lower fn = pre @ y @ post \<and> y = [CHR ''2'', CHR ''0'', c, d]
         \<and> is_digit c \<and> is_digit d)) \<and>
   (search_alt months_sorted (filename_lower fn) = None \<longleftrightarrow>
      (\<forall>m\<in>set months. \<not> py_in m (filename_lower fn))) \<and>
   (\<forall>m. search_alt months_sorted (filename_lower fn) = Some m \<longrightarrow>
      m \<in> set months \<and>
      (\<exists>pre post. filename_lower fn = pre @ m @ post
         \<and> (\<forall>m'\<in>set months. startswith (m @ post) m' \<longrightarrow> length m' \<le> length m))) \<and>
   sorted_wrt (\<lambda>a b. length b \<le> length a) months_sorted \<and>
   (\<forall>m y. search_alt months_sorted (filename_lower fn) = Some m
        \<and> search_year (filename_lower fn) = Some y \<longrightarrow>
      (\<exists>k. month_number (if m = ''sept'' then ''sep'' else m) = Some k \<and> 1 \<le> k \<and> k \<le> 12
         \<and> extract_date_from_filename fn
             = Some \<lparr> ts_year = int (digits_val y), ts_month = k, ts_day = 1 \<rparr>)) \<and>
   (search_alt months_sorted (filename_lower fn) = None
      \<or> search_year (filename_lower fn) = None \<longrightarrow>
      extract_date_from_filename fn = None) \<and>
   (extract_date_from_filename fn = None \<longrightarrow> parse_pdf fn pages = [])"
proof (intro conjI allI impI)
  show "filename_lower fn
     = map (\<lambda>c. if lower_char c = CHR ''_'' \<or> lower_char c = CHR ''.'' then CHR ''-''
                 else lower_char c) fn"
    by (simp add: filename_lower_def replace_char_def lower_def)
next
  show "search_year (filename_lower fn) = None \<longleftrightarrow>
      \<not> (\<exists>pre c d post. filename_lower fn = pre @ [CHR ''2'', CHR ''0'', c, d] @ post
            \<and> is_digit c \<and> is_digit d)"
    by (rule search_year_None_iff)
next
  fix y assume "search_year (filename_lower fn) = Some y"
  then show "\<exists>pre c d post. filename_lower fn = pre @ y @ post
      \<and> y = [CHR ''2'', CHR ''0'', c, d] \<and> is_digit c \<and> is_digit d"
    by (rule search_year_Some)
next
  show "search_alt months_sorted (filename_lower fn) = None \<longleftrightarrow>
      (\<forall>m\<in>set months. \<not> py_in m (filename_lower fn))"
    by (simp add: search_alt_None_iff set_months_sorted)
next
  fix m assume "search_alt months_sorted (filename_lower fn) = Some m"
  then show "m \<in> set months"
    using search_month_Some by simp
next
  fix m assume "search_alt months_sorted (filename_lower fn) = Some m"
  then show "\<exists>pre post. filename_lower fn = pre @ m @ post
      \<and> (\<forall>m'\<in>set months. startswith (m @ post) m' \<longrightarrow> length m' \<le> length m)"
    using search_month_Some by simp
next
  show "sorted_wrt (\<lambda>a b. length b \<le> length a) months_sorted"
    by (rule months_sorted_longer_first)
next
  fix m y
  assume "search_alt months_sorted (filename_lower fn) = Some m
      \<and> search_year (filename_lower fn) = Some y"
  then show "\<exists>k. month_number (if m = ''sept'' then ''sep'' else m) = Some k \<and> 1 \<le> k \<and> k \<le> 12
      \<and> extract_date_from_filename fn
          = Some \<lparr> ts_year = int (digits_val y), ts_month = k, ts_day = 1 \<rparr>"
    using extract_date_Some by simp
next
  assume "search_alt months_sorted (filename_lower fn) = None
      \<or> search_year (filename_lower fn) = None"
  then show "extract_date_from_filename fn = None"
    by (rule extract_date_None)
next
  assume "extract_date_from_filename fn = None"
  then show "parse_pdf fn pages = []"
    by (simp add: parse_pdf_def)
qed

theorem filename_date_inference_witness:
  "search_alt months_sorted (filename_lower ''FPA_Fertilizer_September_2023.pdf'')
     = Some ''september'' \<and>
   search_year (filename_lower ''FPA_Fertilizer_September_2023.pdf'') = Some ''2023'' \<and>
   extract_date_from_filename ''FPA_Fertilizer_September_2023.pdf''
     = Some \<lparr> ts_year = 2023, ts_month = 9, ts_day = 1 \<rparr> \<and>
   search_alt months_sorted (filename_lower ''Sept-2021.pdf'') = Some ''sept'' \<and>
   extract_date_from_filename ''Sept-2021.pdf''
     = Some \<lparr> ts_year = 2021, ts_month = 9, ts_day = 1 \<rparr> \<and>
   search_alt months_sorted (filename_lower ''report_2023.pdf'') = None \<and>
   extract_date_from_filename ''report_2023.pdf'' = None \<and>
   parse_pdf ''report_2023.pdf'' [[[[Some ''Cebu'', Some ''100'']]]] = []"
proof -
  have a: "search_alt months_sorted (filename_lower ''FPA_Fertilizer_September_2023.pdf'')
      = Some ''september''"
    "search_year (filename_lower ''FPA_Fertilizer_September_2023.pdf'') = Some ''2023''"
    by (simp_all add: filename_lower_def months_sorted_eq match_alt_def year_at_def is_digit_def
        text_eval)
  have b: "search_alt months_sorted (filename_lower ''Sept-2021.pdf'') = Some ''sept''"
    "search_year (filename_lower ''Sept-2021.pdf'') = Some ''2021''"
    by (simp_all add: filename_lower_def months_sorted_eq match_alt_def year_at_def is_digit_def
        text_eval)
  have c: "search_alt months_sorted (filename_lower ''report_2023.pdf'') = None"
    by (simp add: filename_lower_def months_sorted_eq match_alt_def text_eval)
  have d: "month_number ''september'' = Some 9" "month_number ''sep'' = Some 9"
    "int (digits_val ''2023'') = 2023" "int (digits_val ''2021'') = 2021"
    by (simp_all add: month_number_def digits_val_def digit_val_def)
  have e1: "extract_date_from_filename ''FPA_Fertilizer_September_2023.pdf''
      = Some \<lparr> ts_year = 2023, ts_month = 9, ts_day = 1 \<rparr>"
  proof -
    have "\<exists>k. month_number (if ''september'' = ''sept'' then ''sep'' else ''september'') = Some k
        \<and> 1 \<le> k \<and> k \<le> 12
        \<and> extract_date_from_filename ''FPA_Fertilizer_September_2023.pdf''
            = Some \<lparr> ts_year = int (digits_val ''2023''), ts_month = k, ts_day = 1 \<rparr>"
      by (rule filename_date_inference [of "''FPA_Fertilizer_September_2023.pdf''" "[]",
            THEN conjunct2, THEN conjunct2, THEN conjunct2, THEN conjunct2, THEN conjunct2,
            THEN conjunct2, THEN conjunct1, rule_format])
        (simp only: a)
    then show ?thesis by (simp add: d)
  qed
  have e2: "extract_date_from_filename ''Sept-2021.pdf''
      = Some \<lparr> ts_year = 2021, ts_month = 9, ts_day = 1 \<rparr>"
  proof -
    have "\<exists>k. month_number (if ''sept'' = ''sept'' then ''sep'' else ''sept'') = Some k
        \<and> 1 \<le> k \<and> k \<le> 12
        \<and> extract_date_from_filename ''Sept-2021.pdf''
            = Some \<lparr> ts_year = int (digits_val ''2021''), ts_month = k, ts_day = 1 \<rparr>"
      by (rule filename_date_inference [of "''Sept-2021.pdf''" "[]",
            THEN conjunct2, THEN conjunct2, THEN conjunct2, THEN conjunct2, THEN conjunct2,
            THEN conjunct2, THEN conjunct1, rule_format])
        (simp only: b)
    then show ?thesis by (simp add: d)
  qed
  have e3: "extract_date_from_filename ''report_2023.pdf'' = None"
    by (rule filename_date_inference [of "''report_2023.pdf''" "[]",
          THEN conjunct2, THEN conjunct2, THEN conjunct2, THEN conjunct2, THEN conjunct2,
          THEN conjunct2, THEN conjunct2, THEN conjunct1, rule_format])
      (simp add: c)
  have e4: "parse_pdf ''report_2023.pdf'' [[[[Some ''Cebu'', Some ''100'']]]] = []"
    by (rule filename_date_inference [of "''report_2023.pdf''"
          "[[[[Some ''Cebu'', Some ''100'']]]]",
          THEN conjunct2, THEN conjunct2, THEN conjunct2, THEN conjunct2, THEN conjunct2,
          THEN conjunct2, THEN conjunct2, THEN conjunct2, rule_format])
      (rule e3)
  show ?thesis
    by (intro conjI a b(1) c e1 e2 e3 e4)
qed

end
